theory Spec2Isabelle
  imports Main "HOL-Library.AList"
begin

section \<open>JavaScript values and the object heap\<close>

text \<open>
  The package is TypeScript running on a JavaScript engine.  Values are the primitives,
  references to heap objects, and the engine's intrinsic objects, identified by name
  (\<open>Object\<close>, \<open>Object.prototype\<close>, \<open>toString\<close>, ...): they exist before the program
  runs, and nothing in this package allocates or changes one.  Reference equality of the
  source (\<open>===\<close>, \<open>Object.is\<close>, \<open>WeakMap\<close> keys) is equality of \<open>jsval\<close>.  Numbers are
  integers here: no claim depends on floating point.
\<close>

type_synonym addr = nat

datatype jsval = Undefined | Null | Bool bool | Num int | Str string | Ref addr | Intrinsic string

text \<open>
  Three kinds of heap object occur: ordinary objects and functions with their properties in
  \<open>Object.entries\<close> order, the \<open>Map<string, JotaiStore>\<close> instances held by the React
  context, and the stores made by jotai's \<open>createStore()\<close>.  A store holds one cell per atom
  it has been written for (keyed by the atom's identity) and the set of atoms
  \<open>useHydrateAtoms\<close> has already hydrated in it (jotai keeps that set in a
  \<open>WeakMap<Store, WeakSet<Atom>>\<close>).
\<close>

datatype jsobj =
    Obj bool "(string \<times> jsval) list"
  | MapObj "string \<rightharpoonup> addr"
  | StoreObj "jsval \<rightharpoonup> jsval" "jsval set"

type_synonym heap = "jsobj list"

definition heap_at :: "heap \<Rightarrow> addr \<Rightarrow> jsobj option" where
  "heap_at h a = (if a < length h then Some (h ! a) else None)"

definition alloc :: "heap \<Rightarrow> jsobj \<Rightarrow> addr \<times> heap" where
  "alloc h ob = (length h, h @ [ob])"

text \<open>
  \<open>typeof v\<close>; \<open>typeof null\<close> is \<open>"object"\<close>.  Of the intrinsics, \<open>Object.prototype\<close>
  is an object and every other one is a function.
\<close>

definition typeof :: "heap \<Rightarrow> jsval \<Rightarrow> string" where
  "typeof h v =
     (case v of
        Undefined \<Rightarrow> ''undefined''
      | Null \<Rightarrow> ''object''
      | Bool _ \<Rightarrow> ''boolean''
      | Num _ \<Rightarrow> ''number''
      | Str _ \<Rightarrow> ''string''
      | Ref a \<Rightarrow> (case heap_at h a of Some (Obj True _) \<Rightarrow> ''function'' | _ \<Rightarrow> ''object'')
      | Intrinsic n \<Rightarrow> (if n = ''Object.prototype'' then ''object'' else ''function''))"

text \<open>Truthiness, as \<open>!!v\<close>, \<open>if (v)\<close> and \<open>v && ...\<close> test it.\<close>

fun truthy :: "jsval \<Rightarrow> bool" where
  "truthy Undefined = False"
| "truthy Null = False"
| "truthy (Bool b) = b"
| "truthy (Num n) = (n \<noteq> 0)"
| "truthy (Str s) = (s \<noteq> [])"
| "truthy (Ref a) = True"
| "truthy (Intrinsic n) = True"

text \<open>
  The own properties of an object, in \<open>Object.keys\<close> order: what \<open>Object.keys(v)\<close> and a
  spread see, and what \<open>k in v\<close> and \<open>v.k\<close> see for the keys this package probes that way
  (\<open>__fn\<close>, \<open>read\<close>, \<open>write\<close>), none of which is inherited from \<open>Object.prototype\<close>
  or \<open>Function.prototype\<close>.  Maps, stores and the intrinsics carry methods only (\<open>get\<close>,
  \<open>set\<close>, \<open>sub\<close>, \<open>keys\<close>, ...), none of them enumerable and none of them one of
  these three keys, so they are listed as having no property.
\<close>

definition props_of :: "heap \<Rightarrow> jsval \<Rightarrow> (string \<times> jsval) list" where
  "props_of h v =
     (case v of
        Ref a \<Rightarrow> (case heap_at h a of Some (Obj _ ps) \<Rightarrow> ps | _ \<Rightarrow> [])
      | _ \<Rightarrow> [])"

text \<open>\<open>k in v\<close> where the source has already established that \<open>v\<close> is an object.\<close>

definition in_obj :: "heap \<Rightarrow> string \<Rightarrow> jsval \<Rightarrow> bool" where
  "in_obj h k v = (map_of (props_of h v) k \<noteq> None)"

text \<open>\<open>v.k\<close>: a missing property reads as \<open>undefined\<close>.\<close>

definition get_prop :: "heap \<Rightarrow> jsval \<Rightarrow> string \<Rightarrow> jsval" where
  "get_prop h v k = (case map_of (props_of h v) k of Some x \<Rightarrow> x | None \<Rightarrow> Undefined)"

datatype error = TypeError

text \<open>\<open>k in v\<close> unguarded: a \<open>TypeError\<close> when \<open>v\<close> is not an object.\<close>

definition js_in :: "heap \<Rightarrow> string \<Rightarrow> jsval \<Rightarrow> error + bool" where
  "js_in h k v =
     (case v of
        Ref a \<Rightarrow> Inr (in_obj h k v)
      | Intrinsic n \<Rightarrow> Inr (in_obj h k v)
      | _ \<Rightarrow> Inl TypeError)"

text \<open>\<open>a ?? b\<close>.\<close>

definition nullish_or :: "jsval \<Rightarrow> jsval \<Rightarrow> jsval" where
  "nullish_or a b = (if a = Undefined \<or> a = Null then b else a)"

text \<open>
  The members every plain object inherits from \<open>Object.prototype\<close>: \<open>constructor\<close> is
  \<open>Object\<close>, the accessor \<open>__proto__\<close> gives \<open>Object.prototype\<close> itself, and the others
  are its methods.
\<close>

definition object_prototype :: "string \<rightharpoonup> jsval" where
  "object_prototype k =
     (if k = ''constructor'' then Some (Intrinsic ''Object'')
      else if k = ''__proto__'' then Some (Intrinsic ''Object.prototype'')
      else if k \<in> set [''hasOwnProperty'', ''isPrototypeOf'', ''propertyIsEnumerable'',
                        ''toLocaleString'', ''toString'', ''valueOf'', ''__defineGetter__'',
                        ''__defineSetter__'', ''__lookupGetter__'', ''__lookupSetter__'']
      then Some (Intrinsic k)
      else None)"

text \<open>
  Reading a property of a plain object (an object literal, a rest object of a destructuring,
  the props React hands to a component), held as the finite map of its own properties:
  \<open>obj[key]\<close>, \<open>obj.key\<close> and the destructuring \<open>{ key } = obj\<close> give the own property,
  otherwise the member inherited from \<open>Object.prototype\<close>, otherwise \<open>undefined\<close>.
\<close>

definition field :: "(string \<rightharpoonup> jsval) \<Rightarrow> string \<Rightarrow> jsval" where
  "field m k =
     (case m k of
        Some v \<Rightarrow> v
      | None \<Rightarrow> (case object_prototype k of Some v \<Rightarrow> v | None \<Rightarrow> Undefined))"

section \<open>atomWithFn: the function-value codec\<close>

text \<open>Source: the module \<open>atomWithFn\<close>, at \<open>src/jest.config.cjs\<close> lines 54 to 109.\<close>

text \<open>
  \<open>wrapFn\<close>: \<open>typeof fnOrValue === 'function' ? { __fn: fnOrValue } : fnOrValue\<close>.
  The object literal is a fresh heap object.
\<close>

definition wrapFn :: "heap \<Rightarrow> jsval \<Rightarrow> jsval \<times> heap" where
  "wrapFn h fnOrValue =
     (if typeof h fnOrValue = ''function''
      then (let (a, h') = alloc h (Obj False [(''__fn'', fnOrValue)]) in (Ref a, h'))
      else (fnOrValue, h))"

text \<open>
  \<open>unwrapFn\<close>: \<open>v && typeof v === 'object' && '__fn' in v ? v.__fn : v\<close>.
\<close>

definition unwrapFn :: "heap \<Rightarrow> jsval \<Rightarrow> jsval" where
  "unwrapFn h wrappedFnOrValue =
     (if truthy wrappedFnOrValue \<and> typeof h wrappedFnOrValue = ''object''
         \<and> in_obj h ''__fn'' wrappedFnOrValue
      then get_prop h wrappedFnOrValue ''__fn''
      else wrappedFnOrValue)"

section \<open>createAtomProvider: the store registry\<close>

text \<open>Source: the module \<open>createAtomProvider\<close>, at \<open>src/jest.config.cjs\<close> lines 110 to 275.\<close>

text \<open>
  Template literals stringify what they interpolate.  Typed callers interpolate strings only
  (\<open>scope?: string\<close>); the other cases are JavaScript's \<open>String(v)\<close>, with
  \<open>[object Object]\<close> (the default \<open>toString\<close>) for every object and the native-code
  text for an intrinsic function.
\<close>

definition digit :: "nat \<Rightarrow> char" where
  "digit n = ''0123456789'' ! (n mod 10)"

function string_of_nat :: "nat \<Rightarrow> string" where
  "string_of_nat n = (if n < 10 then [digit n] else string_of_nat (n div 10) @ [digit n])"
  by pat_completeness auto
termination
  by (relation "measure id") auto

definition template_str :: "jsval \<Rightarrow> string" where
  "template_str v =
     (case v of
        Undefined \<Rightarrow> ''undefined''
      | Null \<Rightarrow> ''null''
      | Bool b \<Rightarrow> (if b then ''true'' else ''false'')
      | Num n \<Rightarrow> (if n < 0 then ''-'' @ string_of_nat (nat (- n)) else string_of_nat (nat n))
      | Str s \<Rightarrow> s
      | Ref _ \<Rightarrow> ''[object Object]''
      | Intrinsic n \<Rightarrow> (if n = ''Object.prototype'' then ''[object Object]''
                         else ''function '' @ n @ ''() { [native code] }''))"

text \<open>\<open>getFullyQualifiedScope\<close>: the template literal \<open>`${storeName}:${scope}`\<close>.\<close>

definition getFullyQualifiedScope :: "string \<Rightarrow> jsval \<Rightarrow> string" where
  "getFullyQualifiedScope storeName scope = storeName @ '':'' @ template_str scope"

definition PROVIDER_SCOPE :: jsval where
  "PROVIDER_SCOPE = Str ''provider''"

text \<open>
  The program state threaded through every operation: the object heap and what has been
  printed with \<open>console.warn\<close>.
\<close>

record world =
  objs :: heap
  console :: "string list"

text \<open>\<open>Map.prototype.get\<close>, \<open>new Map(src)\<close> and \<open>Map.prototype.set\<close> (in place).\<close>

definition entries_of :: "heap \<Rightarrow> addr \<Rightarrow> (string \<rightharpoonup> addr)" where
  "entries_of h m = (case heap_at h m of Some (MapObj es) \<Rightarrow> es | _ \<Rightarrow> Map.empty)"

definition map_get :: "heap \<Rightarrow> addr \<Rightarrow> string \<Rightarrow> jsval" where
  "map_get h m k = (case entries_of h m k of Some s \<Rightarrow> Ref s | None \<Rightarrow> Undefined)"

definition new_Map :: "heap \<Rightarrow> addr \<Rightarrow> addr \<times> heap" where
  "new_Map h src = alloc h (MapObj (entries_of h src))"

definition map_set :: "heap \<Rightarrow> addr \<Rightarrow> string \<Rightarrow> addr \<Rightarrow> heap" where
  "map_set h m k v =
     (case heap_at h m of
        Some (MapObj es) \<Rightarrow> h[m := MapObj (es(k \<mapsto> v))]
      | _ \<Rightarrow> h)"

definition warning :: "string \<Rightarrow> string" where
  "warning storeName =
     ''Tried to access jotai store '' @ [CHR 0x27] @ storeName @ [CHR 0x27]
       @ '' outside of a matching provider.''"

text \<open>
  \<open>useAtomStore(storeName, scope = PROVIDER_SCOPE, warnIfUndefined = true)\<close>.
  \<open>React.useContext(AtomStoreContext)\<close> is the argument \<open>storeContext\<close>: the address
  of the nearest provided Map.  A default parameter applies when the argument is
  \<open>undefined\<close>.
\<close>

definition useAtomStore :: "addr \<Rightarrow> string \<Rightarrow> jsval \<Rightarrow> jsval \<Rightarrow> world \<Rightarrow> jsval \<times> world" where
  "useAtomStore storeContext storeName scope_arg warn_arg w =
     (let scope = (if scope_arg = Undefined then PROVIDER_SCOPE else scope_arg);
          warnIfUndefined = (if warn_arg = Undefined then Bool True else warn_arg);
          store = nullish_or
                    (map_get (objs w) storeContext (getFullyQualifiedScope storeName scope))
                    (map_get (objs w) storeContext (getFullyQualifiedScope storeName PROVIDER_SCOPE))
      in if \<not> truthy store \<and> truthy warnIfUndefined
         then (store, w\<lparr>console := console w @ [warning storeName]\<rparr>)
         else (store, w))"

text \<open>
  The \<open>useMemo\<close> callback of the Provider: copy the inherited Map, register the store
  under its fully qualified scope \<open>if (scope)\<close>, and under the provider scope always.
\<close>

definition provider_context :: "string \<Rightarrow> addr \<Rightarrow> jsval \<Rightarrow> addr \<Rightarrow> heap \<Rightarrow> addr \<times> heap" where
  "provider_context storeScope previousStoreContext scope storeState h =
     (let (newStoreContext, h1) = new_Map h previousStoreContext;
          h2 = (if truthy scope
                then map_set h1 newStoreContext (getFullyQualifiedScope storeScope scope) storeState
                else h1);
          h3 = map_set h2 newStoreContext (getFullyQualifiedScope storeScope PROVIDER_SCOPE) storeState
      in (newStoreContext, h3))"

section \<open>jotai: stores, \<open>useHydrateAtoms\<close>, \<open>useSetAtom\<close>\<close>

text \<open>
  jotai is an external library.  What this package relies on: \<open>createStore()\<close> returns a
  fresh store; \<open>store.set(atom, value)\<close> hands \<open>value\<close> to the atom (the cell records the
  value last set for the atom; what a derived atom's own write function does with it is
  jotai's business); \<open>useHydrateAtoms(values, {store})\<close> sets every listed atom that has
  not been hydrated in that store yet, in list order, and marks it hydrated.
\<close>

definition createStore :: "heap \<Rightarrow> addr \<times> heap" where
  "createStore h = alloc h (StoreObj Map.empty {})"

definition store_cells :: "heap \<Rightarrow> addr \<Rightarrow> (jsval \<rightharpoonup> jsval)" where
  "store_cells h s = (case heap_at h s of Some (StoreObj cs hy) \<Rightarrow> cs | _ \<Rightarrow> Map.empty)"

definition store_hydrated :: "heap \<Rightarrow> addr \<Rightarrow> jsval set" where
  "store_hydrated h s = (case heap_at h s of Some (StoreObj cs hy) \<Rightarrow> hy | _ \<Rightarrow> {})"

definition store_set :: "heap \<Rightarrow> addr \<Rightarrow> jsval \<Rightarrow> jsval \<Rightarrow> heap" where
  "store_set h s atom v =
     (case heap_at h s of
        Some (StoreObj cs hy) \<Rightarrow> h[s := StoreObj (cs(atom \<mapsto> v)) hy]
      | _ \<Rightarrow> h)"

definition mark_hydrated :: "heap \<Rightarrow> addr \<Rightarrow> jsval \<Rightarrow> heap" where
  "mark_hydrated h s atom =
     (case heap_at h s of
        Some (StoreObj cs hy) \<Rightarrow> h[s := StoreObj cs (insert atom hy)]
      | _ \<Rightarrow> h)"

definition is_store :: "heap \<Rightarrow> addr \<Rightarrow> bool" where
  "is_store h s = (case heap_at h s of Some (StoreObj cs hy) \<Rightarrow> True | _ \<Rightarrow> False)"

fun useHydrateAtoms :: "(jsval \<times> jsval) list \<Rightarrow> addr \<Rightarrow> heap \<Rightarrow> heap" where
  "useHydrateAtoms [] store h = h"
| "useHydrateAtoms ((atom, v) # values) store h =
     (if atom \<notin> store_hydrated h store
      then useHydrateAtoms values store (store_set (mark_hydrated h store atom) store atom v)
      else useHydrateAtoms values store h)"

section \<open>useHydrateStore and useSyncStore\<close>

text \<open>Source: \<open>src/packages/jotai-x/src/useHydrateStore.ts\<close>.\<close>

text \<open>
  An atom record (\<open>SimpleWritableAtomRecord\<close>) is the list of its entries in
  \<open>Object.keys\<close> order, each key with \<open>atoms[key]\<close>; the keys of an object are distinct.
  \<open>initialValues\<close> and \<open>values\<close> are plain objects, read with \<open>field\<close>: for a key
  that is the name of a member of \<open>Object.prototype\<close> and not an own property,
  \<open>initialValues[key]\<close> is the inherited member.

  \<open>useHydrateStore\<close>: the loop pushes \<open>[atoms[key], initialValue]\<close> for every key whose
  \<open>initialValues[key] !== undefined\<close>, then calls \<open>useHydrateAtoms\<close>.
\<close>

fun hydrate_values :: "(string \<times> jsval) list \<Rightarrow> (string \<rightharpoonup> jsval) \<Rightarrow> (jsval \<times> jsval) list
    \<Rightarrow> (jsval \<times> jsval) list" where
  "hydrate_values [] initialValues values = values"
| "hydrate_values ((key, atom) # atoms) initialValues values =
     (let initialValue = field initialValues key
      in if initialValue \<noteq> Undefined
         then hydrate_values atoms initialValues (values @ [(atom, initialValue)])
         else hydrate_values atoms initialValues values)"

definition useHydrateStore :: "(string \<times> jsval) list \<Rightarrow> (string \<rightharpoonup> jsval) \<Rightarrow> addr \<Rightarrow> heap \<Rightarrow> heap" where
  "useHydrateStore atoms initialValues store h =
     useHydrateAtoms (hydrate_values atoms initialValues []) store h"

text \<open>
  \<open>useSyncStore\<close>: one \<open>useEffect\<close> per key with dependencies \<open>[set, value]\<close>.  React runs
  an effect after the first render and after every render in which a dependency changed
  (\<open>Object.is\<close>).  \<open>set\<close> comes from jotai's \<open>useSetAtom(atom, {store})\<close>, a callback
  memoised on \<open>[store, atom]\<close>: its identity is the pair of store and atom.  The
  dependencies of the last run are kept per key (\<open>None\<close> before the first run); the
  function below is the commit of one render: every effect whose dependencies changed runs,
  in key order.
\<close>

type_synonym sync_deps = "string \<rightharpoonup> (addr \<times> jsval \<times> jsval)"

fun useSyncStore :: "(string \<times> jsval) list \<Rightarrow> (string \<rightharpoonup> jsval) \<Rightarrow> addr \<Rightarrow> sync_deps \<Rightarrow> heap
    \<Rightarrow> sync_deps \<times> heap" where
  "useSyncStore [] values store deps h = (deps, h)"
| "useSyncStore ((key, atom) # atoms) values store deps h =
     (let v = field values key;
          h' = (if deps key = Some (store, atom, v) then h
                else if v \<noteq> Undefined \<and> v \<noteq> Null then store_set h store atom v
                else h)
      in useSyncStore atoms values store (deps(key \<mapsto> (store, atom, v))) h')"

section \<open>createAtomProvider: the Provider component\<close>

text \<open>
  Spreading a value into an object literal (\<open>{...v}\<close>) copies the own enumerable
  properties: those of an object, the indexed characters of a string, nothing for
  \<open>undefined\<close>, \<open>null\<close>, booleans, numbers and the intrinsics.
\<close>

fun index_chars :: "nat \<Rightarrow> string \<Rightarrow> (string \<times> jsval) list" where
  "index_chars i [] = []"
| "index_chars i (c # cs) = (string_of_nat i, Str [c]) # index_chars (Suc i) cs"

definition spread :: "heap \<Rightarrow> jsval \<Rightarrow> (string \<rightharpoonup> jsval)" where
  "spread h v =
     (case v of
        Ref a \<Rightarrow> map_of (props_of h v)
      | Str s \<Rightarrow> map_of (index_chars 0 s)
      | _ \<Rightarrow> Map.empty)"

text \<open>
  \<open>Object.keys(v)\<close> with \<open>v[key]\<close> for each key, as the two loops of
  \<open>useHydrateStore.ts\<close> read a record: a \<open>TypeError\<close> for \<open>undefined\<close> and \<open>null\<close>,
  the indexed characters of a string, the own properties of an object, nothing for a
  boolean, a number or an intrinsic.
\<close>

definition object_entries :: "heap \<Rightarrow> jsval \<Rightarrow> error + (string \<times> jsval) list" where
  "object_entries h v =
     (case v of
        Undefined \<Rightarrow> Inl TypeError
      | Null \<Rightarrow> Inl TypeError
      | Str s \<Rightarrow> Inr (index_chars 0 s)
      | _ \<Rightarrow> Inr (props_of h v))"

text \<open>
  \<open>HydrateAtoms\<close> as the Provider renders it:
  \<open><HydrateAtoms store={storeState} atoms={atoms} {...props}>\<close>.  The element's props are
  the two attributes followed by the spread of the Provider's remaining props
  (\<open>allprops\<close> below), so a prop named \<open>atoms\<close> replaces the attribute \<open>atoms\<close>: the
  record the component then iterates is that prop's value, whatever it is.  The remaining
  props never hold \<open>store\<close>, which the Provider takes out of them.

  The component destructures \<open>{ initialValues, children, store, atoms, ...props }\<close>,
  hydrates with \<open>{ ...initialValues, ...props }\<close> during the render and syncs \<open>props\<close> in
  the effects of its commit.  \<open>Object.keys(atoms)\<close> throws for \<open>undefined\<close> and
  \<open>null\<close>, and the render with it.  What jotai does with a record entry that is not an
  atom is not modelled: a cell is kept for any value.
\<close>

definition HydrateAtoms :: "(string \<times> jsval) list \<Rightarrow> (string \<rightharpoonup> jsval) \<Rightarrow> addr \<Rightarrow> sync_deps \<Rightarrow> heap
    \<Rightarrow> error + (sync_deps \<times> heap)" where
  "HydrateAtoms atoms_attr allprops store deps h =
     (let initialValues = field allprops ''initialValues'';
          props = allprops |` (- {''initialValues'', ''children'', ''store'', ''atoms''})
      in case (case allprops ''atoms'' of
                 None \<Rightarrow> Inr atoms_attr
               | Some v \<Rightarrow> object_entries h v) of
           Inl e \<Rightarrow> Inl e
         | Inr atoms \<Rightarrow>
             (let h1 = useHydrateStore atoms (spread h initialValues ++ props) store h
              in Inr (useSyncStore atoms props store deps h1)))"

text \<open>
  What React keeps for one mounted Provider between renders: the \<open>useState\<close> cell, the
  dependencies of the last run of the \<open>resetKey\<close> effect, the \<open>useMemo\<close> cache (its
  dependencies and its value) and the dependencies of the sync effects below it.
\<close>

record provider_fiber =
  storeState :: addr
  resetKey_deps :: jsval
  memo_deps :: "addr \<times> jsval \<times> addr"
  storeContext :: addr
  hydrate_deps :: sync_deps

text \<open>
  One render of the component returned by \<open>createAtomProvider(storeScope, atoms)\<close> and
  its commit.  \<open>fiber\<close> is \<open>None\<close> on mount.  In source order:
  \<^item> \<open>useState(createStore())\<close>: the argument is evaluated on every render and used on
    mount only;
  \<^item> \<open>useContext\<close> gives \<open>previousStoreContext\<close>; \<open>useMemo\<close> recomputes the context
    when \<open>[previousStoreContext, scope, storeState]\<close> changed;
  \<^item> \<open>HydrateAtoms\<close> renders with \<open>store={storeState}\<close> and the remaining props; its
    effects run first (children before parents);
  \<^item> the effect on \<open>[resetKey]\<close> runs on mount and when \<open>resetKey\<close> changed; \<open>if
    (resetKey)\<close> it calls \<open>setStoreState(createStore())\<close>.
  The first component of the result says whether the state was set (to a fresh store, never
  the current one), so that React renders the component again.  A render that throws gives
  the error.
\<close>

definition provider_render :: "string \<Rightarrow> (string \<times> jsval) list \<Rightarrow> (string \<rightharpoonup> jsval) \<Rightarrow> addr
    \<Rightarrow> provider_fiber option \<Rightarrow> heap \<Rightarrow> error + (bool \<times> provider_fiber \<times> heap)" where
  "provider_render storeScope atoms allprops previousStoreContext fiber h =
     (let scope = field allprops ''scope'';
          resetKey = field allprops ''resetKey'';
          props = allprops |` (- {''store'', ''scope'', ''children'', ''resetKey''});
          (initialStore, h1) = createStore h;
          store0 = (case fiber of None \<Rightarrow> initialStore | Some f \<Rightarrow> storeState f);
          deps = (previousStoreContext, scope, store0);
          (ctx, h2) = (case fiber of
                         None \<Rightarrow> provider_context storeScope previousStoreContext scope store0 h1
                       | Some f \<Rightarrow>
                           if memo_deps f = deps then (storeContext f, h1)
                           else provider_context storeScope previousStoreContext scope store0 h1)
      in case HydrateAtoms atoms props store0
                (case fiber of None \<Rightarrow> Map.empty | Some f \<Rightarrow> hydrate_deps f) h2 of
           Inl e \<Rightarrow> Inl e
         | Inr (sd, h3) \<Rightarrow>
             (let run_effect = (case fiber of None \<Rightarrow> True | Some f \<Rightarrow> resetKey_deps f \<noteq> resetKey);
                  reset = (run_effect \<and> truthy resetKey);
                  (store1, h4) = (if reset then createStore h3 else (store0, h3))
              in Inr (reset,
                      \<lparr>storeState = store1, resetKey_deps = resetKey, memo_deps = deps,
                       storeContext = ctx, hydrate_deps = sd\<rparr>,
                      h4)))"

text \<open>
  An update of the Provider with given props: render and commit, again while a commit set
  the state.  The fuel bounds the number of renders; \<open>None\<close> is running out of it.
\<close>

fun provider_update :: "nat \<Rightarrow> string \<Rightarrow> (string \<times> jsval) list \<Rightarrow> (string \<rightharpoonup> jsval) \<Rightarrow> addr
    \<Rightarrow> provider_fiber option \<Rightarrow> heap \<Rightarrow> (error + (provider_fiber \<times> heap)) option" where
  "provider_update 0 storeScope atoms allprops previousStoreContext fiber h = None"
| "provider_update (Suc n) storeScope atoms allprops previousStoreContext fiber h =
     (case provider_render storeScope atoms allprops previousStoreContext fiber h of
        Inl e \<Rightarrow> Some (Inl e)
      | Inr (again, f, h') \<Rightarrow>
          if again then provider_update n storeScope atoms allprops previousStoreContext (Some f) h'
          else Some (Inr (f, h')))"

section \<open>createAtomStore: building the store\<close>

text \<open>Source: \<open>src/packages/jotai-x/src/createAtomStore.ts\<close>.\<close>

text \<open>
  \<open>isAtom\<close>: \<open>!!x && typeof x === 'object' && 'read' in x && typeof x.read === 'function'\<close>.
\<close>

definition isAtom :: "heap \<Rightarrow> jsval \<Rightarrow> bool" where
  "isAtom h possibleAtom =
     (truthy possibleAtom \<and> typeof h possibleAtom = ''object''
      \<and> in_obj h ''read'' possibleAtom
      \<and> typeof h (get_prop h possibleAtom ''read'') = ''function'')"

text \<open>
  jotai's \<open>atom(read, write?)\<close> returns a fresh config object: \<open>{ toString, read }\<close> when
  \<open>read\<close> is a function, \<open>{ toString, init: read, read: defaultRead, write: defaultWrite }\<close>
  otherwise, and \<open>write\<close> is set when a write function is given.
\<close>

definition jotai_atom :: "heap \<Rightarrow> jsval \<Rightarrow> jsval \<Rightarrow> jsval \<times> heap" where
  "jotai_atom h rd wr =
     (let (toStr, h1) = alloc h (Obj True []);
          (defaultRead, h2) = alloc h1 (Obj True []);
          (defaultWrite, h3) = alloc h2 (Obj True []);
          config = (if typeof h rd = ''function''
                    then [(''toString'', Ref toStr), (''read'', rd)]
                    else [(''toString'', Ref toStr), (''init'', rd),
                          (''read'', Ref defaultRead), (''write'', Ref defaultWrite)]);
          config' = (if truthy wr then AList.update ''write'' wr config else config);
          (a, h4) = alloc h3 (Obj False config')
      in (Ref a, h4))"

text \<open>
  \<open>atomWithFn\<close>: a primitive atom holding \<open>wrapFn(initialValue)\<close>, behind a derived atom
  whose read and write functions are two fresh closures.
\<close>

definition atomWithFn :: "heap \<Rightarrow> jsval \<Rightarrow> jsval \<times> heap" where
  "atomWithFn h initialValue =
     (let (wrapped, h1) = wrapFn h initialValue;
          (baseAtom, h2) = jotai_atom h1 wrapped Undefined;
          (readFn, h3) = alloc h2 (Obj True []);
          (writeFn, h4) = alloc h3 (Obj True [])
      in jotai_atom h4 (Ref readFn) (Ref writeFn))"

text \<open>
  The three records the first loop of \<open>createAtomStore\<close> fills, one
  \<open>Object.entries(initialState)\<close> entry at a time.  \<open>obj[key] = v\<close> replaces the value of a
  key the object has and appends a new key otherwise.
\<close>

record base_records =
  atomsWithoutExtend :: "(string \<times> jsval) list"
  writableAtomsWithoutExtend :: "(string \<times> jsval) list"
  atomIsWritable :: "(string \<times> bool) list"

fun base_loop :: "(string \<times> jsval) list \<Rightarrow> base_records \<Rightarrow> heap \<Rightarrow> error + (base_records \<times> heap)" where
  "base_loop [] r h = Inr (r, h)"
| "base_loop ((key, atomOrValue) # rest) r h =
     (let (atomConfig, h1) = (if isAtom h atomOrValue then (atomOrValue, h)
                              else atomWithFn h atomOrValue)
      in case js_in h1 ''write'' atomConfig of
           Inl e \<Rightarrow> Inl e
         | Inr writable \<Rightarrow>
             base_loop rest
               \<lparr>atomsWithoutExtend = AList.update key atomConfig (atomsWithoutExtend r),
                writableAtomsWithoutExtend =
                  (if writable then AList.update key atomConfig (writableAtomsWithoutExtend r)
                   else writableAtomsWithoutExtend r),
                atomIsWritable = AList.update key writable (atomIsWritable r)\<rparr>
               h1)"

text \<open>The loop over \<open>Object.entries(extendedAtoms)\<close>.\<close>

fun extend_loop :: "(string \<times> jsval) list \<Rightarrow> (string \<times> jsval) list \<Rightarrow> (string \<times> bool) list \<Rightarrow> heap
    \<Rightarrow> error + ((string \<times> jsval) list \<times> (string \<times> bool) list)" where
  "extend_loop [] atoms isWritable h = Inr (atoms, isWritable)"
| "extend_loop ((key, atomConfig) # rest) atoms isWritable h =
     (case js_in h ''write'' atomConfig of
        Inl e \<Rightarrow> Inl e
      | Inr writable \<Rightarrow>
          extend_loop rest (AList.update key atomConfig atoms)
            (AList.update key writable isWritable) h)"

text \<open>
  What \<open>createAtomStore\<close> builds before it returns: the final atoms (\<open>storeApi.atom\<close>),
  the writability table, the atoms handed to \<open>createAtomProvider\<close>, and the keys of the
  \<open>getAtoms\<close>, \<open>setAtoms\<close> and \<open>useAtoms\<close> records.
\<close>

record atom_store =
  store_name :: string
  store_atoms :: "(string \<times> jsval) list"
  store_atomIsWritable :: "(string \<times> bool) list"
  provider_atoms :: "(string \<times> jsval) list"
  get_keys :: "string list"
  set_keys :: "string list"

text \<open>
  The option \<open>extend\<close> (\<open>extendFn\<close> below) is the caller's function, if any: from the
  base atoms and the heap to the extension's entries and the heap it leaves.
\<close>

type_synonym extend_fn = "(string \<times> jsval) list \<Rightarrow> heap \<Rightarrow> (string \<times> jsval) list \<times> heap"

definition writable_keys :: "(string \<times> jsval) list \<Rightarrow> (string \<times> bool) list \<Rightarrow> string list" where
  "writable_keys atoms isWritable =
     filter (\<lambda>key. map_of isWritable key = Some True) (map fst atoms)"

definition createAtomStore :: "(string \<times> jsval) list \<Rightarrow> string \<Rightarrow> extend_fn option \<Rightarrow> world
    \<Rightarrow> error + (atom_store \<times> world)" where
  "createAtomStore initialState name extendFn w =
     (case base_loop initialState
             \<lparr>atomsWithoutExtend = [], writableAtomsWithoutExtend = [], atomIsWritable = []\<rparr>
             (objs w) of
        Inl e \<Rightarrow> Inl e
      | Inr (r, h1) \<Rightarrow>
          (let atoms = atomsWithoutExtend r;
               (extendedAtoms, h2) = (case extendFn of
                                        None \<Rightarrow> ([], h1)
                                      | Some f \<Rightarrow> f (atomsWithoutExtend r) h1)
           in case extend_loop extendedAtoms atoms (atomIsWritable r) h2 of
                Inl e \<Rightarrow> Inl e
              | Inr (atoms', isWritable) \<Rightarrow>
                  Inr (\<lparr>store_name = name,
                        store_atoms = atoms',
                        store_atomIsWritable = isWritable,
                        provider_atoms = writableAtomsWithoutExtend r,
                        get_keys = map fst atoms',
                        set_keys = writable_keys atoms' isWritable\<rparr>,
                       w\<lparr>objs := h2\<rparr>)))"

section \<open>createAtomStore: the accessor surface\<close>

text \<open>
  An argument of type \<open>UseAtomOptionsOrScope | undefined\<close>: omitted, a bare string, or an
  options object (its properties as a finite map; a property may be present with the value
  \<open>undefined\<close>).
\<close>

datatype options_arg = NoArg | ScopeArg string | OptionsArg "string \<rightharpoonup> jsval"

text \<open>
  \<open>convertScopeShorthand(optionsOrScope = {})\<close>:
  \<open>typeof optionsOrScope === 'string' ? { scope: optionsOrScope } : optionsOrScope\<close>.
\<close>

definition convertScopeShorthand :: "options_arg \<Rightarrow> (string \<rightharpoonup> jsval)" where
  "convertScopeShorthand optionsOrScope =
     (case optionsOrScope of
        NoArg \<Rightarrow> Map.empty
      | ScopeArg s \<Rightarrow> [''scope'' \<mapsto> Str s]
      | OptionsArg options \<Rightarrow> options)"

text \<open>\<open>...options\<close> inside an object literal, for an argument with the default \<open>{}\<close>.\<close>

definition spread_arg :: "options_arg \<Rightarrow> (string \<rightharpoonup> jsval)" where
  "spread_arg options =
     (case options of
        NoArg \<Rightarrow> Map.empty
      | ScopeArg s \<Rightarrow> map_of (index_chars 0 s)
      | OptionsArg m \<Rightarrow> m)"

text \<open>
  \<open>withDefaultOptions(fnRecord, defaultOptions)[key]\<close> is
  \<open>(options = {}) => fn({ ...defaultOptions, ...options })\<close>.
\<close>

definition withDefaultOptions :: "(options_arg \<Rightarrow> 'r) \<Rightarrow> (string \<rightharpoonup> jsval) \<Rightarrow> options_arg \<Rightarrow> 'r" where
  "withDefaultOptions fn defaultOptions options =
     fn (OptionsArg (defaultOptions ++ spread_arg options))"

text \<open>
  \<open>useStore\<close>: destructures \<open>{ scope, store, warnIfNoStore = true }\<close>, asks
  \<open>useAtomStore(name, scope, !store && warnIfNoStore)\<close> and returns
  \<open>store ?? contextStore\<close>.  \<open>a && b\<close> is \<open>a\<close> when \<open>a\<close> is falsy and \<open>b\<close> otherwise.
\<close>

definition useStore :: "string \<Rightarrow> addr \<Rightarrow> options_arg \<Rightarrow> world \<Rightarrow> jsval \<times> world" where
  "useStore name ctx optionsOrScope w =
     (let options = convertScopeShorthand optionsOrScope;
          scope = field options ''scope'';
          store = field options ''store'';
          warnIfNoStore = (if field options ''warnIfNoStore'' = Undefined then Bool True
                           else field options ''warnIfNoStore'');
          (contextStore, w') =
             useAtomStore ctx name scope (if truthy store then Bool False else warnIfNoStore) w
      in (nullish_or store contextStore, w'))"

text \<open>
  The three jotai hooks the accessors end in, as the call each one makes: the atom, the
  store and (for the reading hooks) the delay.
\<close>

datatype jotai_call =
    UseAtomValue jsval jsval jsval
  | UseSetAtom jsval jsval
  | UseAtom jsval jsval jsval

definition useAtomValueWithStore :: "string \<Rightarrow> jsval \<Rightarrow> addr \<Rightarrow> jsval \<Rightarrow> options_arg \<Rightarrow> world
    \<Rightarrow> jotai_call \<times> world" where
  "useAtomValueWithStore name delayRoot ctx atomConfig optionsOrScope w =
     (let options = convertScopeShorthand optionsOrScope;
          (store, w') = useStore name ctx (OptionsArg ([''warnIfNoStore'' \<mapsto> Bool False] ++ options)) w
      in (UseAtomValue atomConfig store (nullish_or (field options ''delay'') delayRoot), w'))"

definition useSetAtomWithStore :: "string \<Rightarrow> addr \<Rightarrow> jsval \<Rightarrow> options_arg \<Rightarrow> world
    \<Rightarrow> jotai_call \<times> world" where
  "useSetAtomWithStore name ctx atomConfig optionsOrScope w =
     (let (store, w') = useStore name ctx optionsOrScope w
      in (UseSetAtom atomConfig store, w'))"

definition useAtomWithStore :: "string \<Rightarrow> jsval \<Rightarrow> addr \<Rightarrow> jsval \<Rightarrow> options_arg \<Rightarrow> world
    \<Rightarrow> jotai_call \<times> world" where
  "useAtomWithStore name delayRoot ctx atomConfig optionsOrScope w =
     (let (store, w') = useStore name ctx optionsOrScope w;
          d = field (convertScopeShorthand optionsOrScope) ''delay'';
          delay = (if d = Undefined then delayRoot else d)
      in (UseAtom atomConfig store delay, w'))"

text \<open>
  \<open>useStoreApi(defaultOptions)\<close>: the members of the object it returns, each applied to its
  arguments.  The per-field members come from \<open>withDefaultOptions\<close> over \<open>getAtoms\<close>,
  \<open>setAtoms\<close> and \<open>useAtoms\<close>; a key the record lacks has no member (\<open>None\<close>).
\<close>

definition api_get :: "atom_store \<Rightarrow> jsval \<Rightarrow> addr \<Rightarrow> options_arg \<Rightarrow> string \<Rightarrow> options_arg \<Rightarrow> world
    \<Rightarrow> (jotai_call \<times> world) option" where
  "api_get st delayRoot ctx defaultOptions key options w =
     (if key \<in> set (get_keys st)
      then Some (withDefaultOptions
                   (\<lambda>optionsOrScope. useAtomValueWithStore (store_name st) delayRoot ctx
                                       (field (map_of (store_atoms st)) key) optionsOrScope w)
                   (convertScopeShorthand defaultOptions) options)
      else None)"

definition api_set :: "atom_store \<Rightarrow> addr \<Rightarrow> options_arg \<Rightarrow> string \<Rightarrow> options_arg \<Rightarrow> world
    \<Rightarrow> (jotai_call \<times> world) option" where
  "api_set st ctx defaultOptions key options w =
     (if key \<in> set (set_keys st)
      then Some (withDefaultOptions
                   (\<lambda>optionsOrScope. useSetAtomWithStore (store_name st) ctx
                                       (field (map_of (store_atoms st)) key) optionsOrScope w)
                   (convertScopeShorthand defaultOptions) options)
      else None)"

definition api_use :: "atom_store \<Rightarrow> jsval \<Rightarrow> addr \<Rightarrow> options_arg \<Rightarrow> string \<Rightarrow> options_arg \<Rightarrow> world
    \<Rightarrow> (jotai_call \<times> world) option" where
  "api_use st delayRoot ctx defaultOptions key options w =
     (if key \<in> set (set_keys st)
      then Some (withDefaultOptions
                   (\<lambda>optionsOrScope. useAtomWithStore (store_name st) delayRoot ctx
                                       (field (map_of (store_atoms st)) key) optionsOrScope w)
                   (convertScopeShorthand defaultOptions) options)
      else None)"

definition merged_options :: "options_arg \<Rightarrow> options_arg \<Rightarrow> options_arg" where
  "merged_options defaultOptions options =
     OptionsArg (convertScopeShorthand defaultOptions ++ convertScopeShorthand options)"

definition api_get_atom :: "atom_store \<Rightarrow> jsval \<Rightarrow> addr \<Rightarrow> options_arg \<Rightarrow> jsval \<Rightarrow> options_arg \<Rightarrow> world
    \<Rightarrow> jotai_call \<times> world" where
  "api_get_atom st delayRoot ctx defaultOptions atomConfig options w =
     useAtomValueWithStore (store_name st) delayRoot ctx atomConfig
       (merged_options defaultOptions options) w"

definition api_set_atom :: "atom_store \<Rightarrow> addr \<Rightarrow> options_arg \<Rightarrow> jsval \<Rightarrow> options_arg \<Rightarrow> world
    \<Rightarrow> jotai_call \<times> world" where
  "api_set_atom st ctx defaultOptions atomConfig options w =
     useSetAtomWithStore (store_name st) ctx atomConfig (merged_options defaultOptions options) w"

definition api_use_atom :: "atom_store \<Rightarrow> jsval \<Rightarrow> addr \<Rightarrow> options_arg \<Rightarrow> jsval \<Rightarrow> options_arg \<Rightarrow> world
    \<Rightarrow> jotai_call \<times> world" where
  "api_use_atom st delayRoot ctx defaultOptions atomConfig options w =
     useAtomWithStore (store_name st) delayRoot ctx atomConfig
       (merged_options defaultOptions options) w"

definition api_store :: "atom_store \<Rightarrow> addr \<Rightarrow> options_arg \<Rightarrow> options_arg \<Rightarrow> world \<Rightarrow> jsval \<times> world" where
  "api_store st ctx defaultOptions options w =
     useStore (store_name st) ctx (merged_options defaultOptions options) w"

section \<open>Heap lemmas\<close>

lemma heap_at_append: "heap_at (h @ [ob]) a = (if a = length h then Some ob else heap_at h a)"
  by (auto simp: heap_at_def nth_append)

lemma heap_at_update:
  "heap_at (h[m := ob]) a = (if a = m \<and> m < length h then Some ob else heap_at h a)"
  by (auto simp: heap_at_def)

lemma typeof_function_ref:
  "typeof h v = ''function'' \<Longrightarrow>
   (\<exists>a ps. v = Ref a \<and> a < length h \<and> h ! a = Obj True ps) \<or> (\<exists>n. v = Intrinsic n)"
  by (auto simp: typeof_def heap_at_def
      split: jsval.splits option.splits jsobj.splits bool.splits if_splits)

lemma gfqs_str: "getFullyQualifiedScope name (Str scope) = name @ '':'' @ scope"
  by (simp add: getFullyQualifiedScope_def template_str_def)

lemma gfqs_provider: "getFullyQualifiedScope name PROVIDER_SCOPE = name @ '':provider''"
  by (simp add: getFullyQualifiedScope_def template_str_def PROVIDER_SCOPE_def)

lemma provider_context_entries:
  assumes "provider_context name prev scope store h = (new, h')"
  shows "entries_of h' new =
           (if truthy scope
            then (entries_of h prev)(getFullyQualifiedScope name scope \<mapsto> store,
                                     getFullyQualifiedScope name PROVIDER_SCOPE \<mapsto> store)
            else (entries_of h prev)(getFullyQualifiedScope name PROVIDER_SCOPE \<mapsto> store))"
  using assms
  by (auto simp: provider_context_def new_Map_def alloc_def map_set_def heap_at_append
      heap_at_update entries_of_def Let_def heap_at_def nth_append split: if_splits)

section \<open>The function-value codec\<close>

text \<open>
  Claim C3, as stated, says that \<open>unwrapFn(wrapFn(v))\<close> is \<open>v\<close> for every value.  It is
  not: a plain object that has a property \<open>__fn\<close> of its own is not a function, so
  \<open>wrapFn\<close> returns it as it is, and \<open>unwrapFn\<close> takes it for a wrapper and returns the
  property.  Here the heap holds the object \<open>{ __fn: 1 }\<close> at address 0, and the round
  trip of a reference to it gives the number 1.
\<close>

theorem codec_roundtrip_counterexample:
  "unwrapFn (snd (wrapFn [Obj False [(''__fn'', Num 1)]] (Ref 0)))
            (fst (wrapFn [Obj False [(''__fn'', Num 1)]] (Ref 0))) \<noteq> Ref 0"
  by (simp add: wrapFn_def unwrapFn_def typeof_def heap_at_def in_obj_def props_of_def get_prop_def)

text \<open>
  Claim C3, amended: for every value \<open>v\<close> that is not a non-null object with a property
  \<open>__fn\<close> (so for every function, for \<open>null\<close>, for every primitive and for every
  object without that property), \<open>unwrapFn(wrapFn(v))\<close> is \<open>v\<close>; and for every function
  \<open>f\<close>, \<open>wrapFn(f)\<close> is a reference to a fresh object \<open>{ __fn: f }\<close>, never \<open>f\<close> itself.
\<close>

theorem codec_roundtrip:
  assumes "\<not> (truthy v \<and> typeof h v = ''object'' \<and> in_obj h ''__fn'' v)"
  shows "unwrapFn (snd (wrapFn h v)) (fst (wrapFn h v)) = v
       \<and> (typeof h v = ''function'' \<longrightarrow>
            fst (wrapFn h v) = Ref (length h) \<and> fst (wrapFn h v) \<noteq> v
          \<and> heap_at (snd (wrapFn h v)) (length h) = Some (Obj False [(''__fn'', v)]))"
proof (cases "typeof h v = ''function''")
  case True
  then have v: "(\<exists>a. v = Ref a \<and> a < length h) \<or> (\<exists>n. v = Intrinsic n)"
    using typeof_function_ref by blast
  have w: "wrapFn h v = (Ref (length h), h @ [Obj False [(''__fn'', v)]])"
    using True by (simp add: wrapFn_def alloc_def)
  have ne: "Ref (length h) \<noteq> v"
    using v by auto
  have "unwrapFn (h @ [Obj False [(''__fn'', v)]]) (Ref (length h)) = v"
    by (simp add: unwrapFn_def typeof_def heap_at_def in_obj_def props_of_def get_prop_def)
  moreover have "heap_at (h @ [Obj False [(''__fn'', v)]]) (length h) = Some (Obj False [(''__fn'', v)])"
    by (simp add: heap_at_def)
  ultimately show ?thesis
    unfolding w using ne by simp
next
  case False
  then show ?thesis using assms by (auto simp: wrapFn_def unwrapFn_def)
qed

text \<open>
  The amended claim at a function (address 0), at \<open>null\<close> and at the plain object
  \<open>{ a: 1 }\<close> (address 1).
\<close>

theorem codec_roundtrip_witness:
  "unwrapFn (snd (wrapFn [Obj True [], Obj False [(''a'', Num 1)]] (Ref 0)))
            (fst (wrapFn [Obj True [], Obj False [(''a'', Num 1)]] (Ref 0))) = Ref 0
   \<and> fst (wrapFn [Obj True [], Obj False [(''a'', Num 1)]] (Ref 0)) = Ref 2
   \<and> unwrapFn (snd (wrapFn [Obj True [], Obj False [(''a'', Num 1)]] Null))
              (fst (wrapFn [Obj True [], Obj False [(''a'', Num 1)]] Null)) = Null
   \<and> unwrapFn (snd (wrapFn [Obj True [], Obj False [(''a'', Num 1)]] (Ref 1)))
              (fst (wrapFn [Obj True [], Obj False [(''a'', Num 1)]] (Ref 1))) = Ref 1"
proof -
  let ?h = "[Obj True [], Obj False [(''a'', Num 1)]]"
  have fn: "typeof ?h (Ref 0) = ''function''"
    by (simp add: typeof_def heap_at_def)
  have "\<not> (truthy (Ref 0) \<and> typeof ?h (Ref 0) = ''object'' \<and> in_obj ?h ''__fn'' (Ref 0))"
    by (simp add: typeof_def heap_at_def)
  from codec_roundtrip [OF this] fn
  have a: "unwrapFn (snd (wrapFn ?h (Ref 0))) (fst (wrapFn ?h (Ref 0))) = Ref 0"
    and b0: "fst (wrapFn ?h (Ref 0)) = Ref (length ?h)"
    by blast+
  from b0 have b: "fst (wrapFn ?h (Ref 0)) = Ref 2"
    by simp
  have "\<not> (truthy Null \<and> typeof ?h Null = ''object'' \<and> in_obj ?h ''__fn'' Null)"
    by simp
  from codec_roundtrip [OF this]
  have c: "unwrapFn (snd (wrapFn ?h Null)) (fst (wrapFn ?h Null)) = Null"
    by blast
  have "\<not> (truthy (Ref 1) \<and> typeof ?h (Ref 1) = ''object'' \<and> in_obj ?h ''__fn'' (Ref 1))"
    by (simp add: in_obj_def props_of_def heap_at_def)
  from codec_roundtrip [OF this]
  have d: "unwrapFn (snd (wrapFn ?h (Ref 1))) (fst (wrapFn ?h (Ref 1))) = Ref 1"
    by blast
  from a b c d show ?thesis by blast
qed

section \<open>Store resolution\<close>

text \<open>
  Claim C1: resolution is two-level.  For every registry snapshot (the Map at \<open>ctx\<close>),
  store name and scope, \<open>useAtomStore\<close> returns the store registered under
  \<open>storeName:scope\<close> if there is one, otherwise the one under \<open>storeName:provider\<close> if
  there is one, otherwise \<open>undefined\<close>; and no other key is consulted: two snapshots that
  agree on these two keys resolve alike.  The keys are the strings
  \<open>getFullyQualifiedScope\<close> builds.
\<close>

theorem useAtomStore_two_level:
  "getFullyQualifiedScope name (Str scope) = name @ '':'' @ scope
   \<and> getFullyQualifiedScope name PROVIDER_SCOPE = name @ '':provider''
   \<and> fst (useAtomStore ctx name (Str scope) warn w) =
     (case entries_of (objs w) ctx (name @ '':'' @ scope) of
        Some s \<Rightarrow> Ref s
      | None \<Rightarrow> (case entries_of (objs w) ctx (name @ '':provider'') of
                  Some s \<Rightarrow> Ref s
                | None \<Rightarrow> Undefined))
   \<and> (\<forall>ctx' w'.
         entries_of (objs w') ctx' (name @ '':'' @ scope)
           = entries_of (objs w) ctx (name @ '':'' @ scope)
         \<and> entries_of (objs w') ctx' (name @ '':provider'')
           = entries_of (objs w) ctx (name @ '':provider'')
         \<longrightarrow> fst (useAtomStore ctx' name (Str scope) warn w')
             = fst (useAtomStore ctx name (Str scope) warn w))"
  by (simp add: useAtomStore_def Let_def map_get_def nullish_or_def gfqs_str gfqs_provider
      PROVIDER_SCOPE_def split: option.splits)

text \<open>
  A snapshot with \<open>app:dark\<close> and \<open>app:provider\<close>: \<open>dark\<close> resolves to its own entry,
  \<open>light\<close> falls back to the provider entry; without a provider entry \<open>light\<close> is
  \<open>undefined\<close>, and a snapshot that differs on another key only resolves alike.
\<close>

theorem useAtomStore_two_level_witness:
  "fst (useAtomStore 0 ''app'' (Str ''dark'') Undefined
          \<lparr>objs = [MapObj [''app:dark'' \<mapsto> 1, ''app:provider'' \<mapsto> 2],
                   StoreObj Map.empty {}, StoreObj Map.empty {}],
           console = []\<rparr>) = Ref 1
   \<and> fst (useAtomStore 0 ''app'' (Str ''light'') Undefined
          \<lparr>objs = [MapObj [''app:dark'' \<mapsto> 1, ''app:provider'' \<mapsto> 2],
                   StoreObj Map.empty {}, StoreObj Map.empty {}],
           console = []\<rparr>) = Ref 2
   \<and> fst (useAtomStore 0 ''app'' (Str ''light'') Undefined
          \<lparr>objs = [MapObj [''app:dark'' \<mapsto> 1], StoreObj Map.empty {}], console = []\<rparr>)
       = Undefined
   \<and> fst (useAtomStore 1 ''app'' (Str ''light'') Undefined
          \<lparr>objs = [StoreObj Map.empty {}, MapObj [''other:light'' \<mapsto> 0]], console = []\<rparr>)
       = fst (useAtomStore 0 ''app'' (Str ''light'') Undefined
          \<lparr>objs = [MapObj [''app:dark'' \<mapsto> 1], StoreObj Map.empty {}], console = []\<rparr>)"
  using useAtomStore_two_level [of "''app''" "''dark''" 0 Undefined
          "\<lparr>objs = [MapObj [''app:dark'' \<mapsto> 1, ''app:provider'' \<mapsto> 2],
                    StoreObj Map.empty {}, StoreObj Map.empty {}], console = []\<rparr>"]
        useAtomStore_two_level [of "''app''" "''light''" 0 Undefined
          "\<lparr>objs = [MapObj [''app:dark'' \<mapsto> 1, ''app:provider'' \<mapsto> 2],
                    StoreObj Map.empty {}, StoreObj Map.empty {}], console = []\<rparr>"]
        useAtomStore_two_level [of "''app''" "''light''" 0 Undefined
          "\<lparr>objs = [MapObj [''app:dark'' \<mapsto> 1], StoreObj Map.empty {}], console = []\<rparr>"]
  by (simp add: entries_of_def heap_at_def)

text \<open>
  Claim C9: when the snapshot has an entry neither for the requested key nor for the
  provider key, \<open>useAtomStore\<close> returns \<open>undefined\<close>; with warnings enabled (the argument
  \<open>true\<close>, or omitted, which defaults to \<open>true\<close>) it prints one \<open>console.warn\<close> line that
  contains the store's name, and with warnings disabled it prints nothing and leaves the
  state as it was.  The function has no failing path: its result is a value in every case.
\<close>

theorem useAtomStore_unresolved:
  assumes "entries_of (objs w) ctx
             (getFullyQualifiedScope name (if scope_arg = Undefined then PROVIDER_SCOPE else scope_arg))
           = None"
      and "entries_of (objs w) ctx (getFullyQualifiedScope name PROVIDER_SCOPE) = None"
  shows "useAtomStore ctx name scope_arg (Bool True) w
           = (Undefined, w\<lparr>console := console w @ [warning name]\<rparr>)
       \<and> useAtomStore ctx name scope_arg Undefined w
           = (Undefined, w\<lparr>console := console w @ [warning name]\<rparr>)
       \<and> useAtomStore ctx name scope_arg (Bool False) w = (Undefined, w)
       \<and> (\<exists>pre post. warning name = pre @ name @ post)"
proof -
  have "warning name = (''Tried to access jotai store '' @ [CHR 0x27]) @ name
          @ ([CHR 0x27] @ '' outside of a matching provider.'')"
    by (simp add: warning_def)
  then have "\<exists>pre post. warning name = pre @ name @ post" by blast
  then show ?thesis
    using assms by (simp add: useAtomStore_def Let_def map_get_def nullish_or_def)
qed

text \<open>The store \<open>app\<close> asked for under scope \<open>dark\<close> in a snapshot that knows \<open>other\<close> only.\<close>

theorem useAtomStore_unresolved_witness:
  "useAtomStore 0 ''app'' (Str ''dark'') (Bool True)
      \<lparr>objs = [MapObj [''other:provider'' \<mapsto> 1], StoreObj Map.empty {}], console = []\<rparr>
     = (Undefined,
        \<lparr>objs = [MapObj [''other:provider'' \<mapsto> 1], StoreObj Map.empty {}],
         console = [''Tried to access jotai store '' @ [CHR 0x27] @ ''app'' @ [CHR 0x27]
                     @ '' outside of a matching provider.'']\<rparr>)
   \<and> useAtomStore 0 ''app'' (Str ''dark'') (Bool False)
      \<lparr>objs = [MapObj [''other:provider'' \<mapsto> 1], StoreObj Map.empty {}], console = []\<rparr>
     = (Undefined,
        \<lparr>objs = [MapObj [''other:provider'' \<mapsto> 1], StoreObj Map.empty {}], console = []\<rparr>)"
  using useAtomStore_unresolved [of
          "\<lparr>objs = [MapObj [''other:provider'' \<mapsto> 1], StoreObj Map.empty {}], console = []\<rparr>"
          0 "''app''" "Str ''dark''"]
  by (simp add: entries_of_def heap_at_def gfqs_str gfqs_provider warning_def)

section \<open>The registry snapshot a Provider hands down\<close>

text \<open>
  Claim C2, as stated, says that a Provider given an explicit scope prop registers its
  store under both \<open>storeName:scope\<close> and \<open>storeName:provider\<close>.  The guard is
  \<open>if (scope)\<close>: a Provider given the empty string as its scope registers under the
  provider key only, and the key \<open>app:\<close> stays absent.
\<close>

theorem provider_context_counterexample:
  "entries_of
     (snd (provider_context ''app'' 0 (Str '''') 1 [MapObj Map.empty, StoreObj Map.empty {}]))
     (fst (provider_context ''app'' 0 (Str '''') 1 [MapObj Map.empty, StoreObj Map.empty {}]))
     (getFullyQualifiedScope ''app'' (Str '''')) = None"
  by (simp add: provider_context_def new_Map_def alloc_def map_set_def heap_at_def entries_of_def
      gfqs_str gfqs_provider)

text \<open>
  Claim C2, amended: the Provider builds a new Map and mutates nothing that existed, the
  inherited Map included.  The new Map is the inherited one with the store under
  \<open>storeName:provider\<close>, and also under \<open>storeName:scope\<close> when the scope prop is truthy
  (a non-empty string); with no scope prop, or the empty string, only the provider entry is
  added.  Every other key keeps the inherited entry.
\<close>

theorem provider_context_extends:
  assumes "provider_context name prev scope store h = (new, h')"
  shows "new = length h
       \<and> (\<forall>a<length h. heap_at h' a = heap_at h a)
       \<and> entries_of h' new =
           (if truthy scope
            then (entries_of h prev)(getFullyQualifiedScope name scope \<mapsto> store,
                                     getFullyQualifiedScope name PROVIDER_SCOPE \<mapsto> store)
            else (entries_of h prev)(getFullyQualifiedScope name PROVIDER_SCOPE \<mapsto> store))"
  using assms
  by (auto simp: provider_context_def new_Map_def alloc_def map_set_def heap_at_append
      heap_at_update entries_of_def Let_def heap_at_def nth_append split: if_splits)

text \<open>
  A Provider of \<open>app\<close> with scope \<open>dark\<close> below a snapshot that holds \<open>app:provider\<close> and
  \<open>other:provider\<close>: the inherited Map at address 0 is as it was, and the new Map at
  address 4 holds the new store (3) under both keys of \<open>app\<close> and the inherited entry of
  \<open>other\<close>.
\<close>

theorem provider_context_extends_witness:
  "fst (provider_context ''app'' 0 (Str ''dark'') 3
         [MapObj [''app:provider'' \<mapsto> 1, ''other:provider'' \<mapsto> 2],
          StoreObj Map.empty {}, StoreObj Map.empty {}, StoreObj Map.empty {}]) = 4
   \<and> heap_at (snd (provider_context ''app'' 0 (Str ''dark'') 3
         [MapObj [''app:provider'' \<mapsto> 1, ''other:provider'' \<mapsto> 2],
          StoreObj Map.empty {}, StoreObj Map.empty {}, StoreObj Map.empty {}])) 0
       = Some (MapObj [''app:provider'' \<mapsto> 1, ''other:provider'' \<mapsto> 2])
   \<and> entries_of (snd (provider_context ''app'' 0 (Str ''dark'') 3
         [MapObj [''app:provider'' \<mapsto> 1, ''other:provider'' \<mapsto> 2],
          StoreObj Map.empty {}, StoreObj Map.empty {}, StoreObj Map.empty {}])) 4
       = [''app:provider'' \<mapsto> 3, ''other:provider'' \<mapsto> 2, ''app:dark'' \<mapsto> 3]"
proof -
  let ?h = "[MapObj [''app:provider'' \<mapsto> 1, ''other:provider'' \<mapsto> 2],
          StoreObj Map.empty {}, StoreObj Map.empty {}, StoreObj Map.empty {}]"
  let ?r = "provider_context ''app'' 0 (Str ''dark'') 3 ?h"
  have "?r = (fst ?r, snd ?r)" by simp
  from provider_context_extends [OF this]
  have a: "fst ?r = length ?h"
    and b: "\<forall>a<length ?h. heap_at (snd ?r) a = heap_at ?h a"
    and c: "entries_of (snd ?r) (fst ?r) =
           (if truthy (Str ''dark'')
            then (entries_of ?h 0)(getFullyQualifiedScope ''app'' (Str ''dark'') \<mapsto> 3,
                                     getFullyQualifiedScope ''app'' PROVIDER_SCOPE \<mapsto> 3)
            else (entries_of ?h 0)(getFullyQualifiedScope ''app'' PROVIDER_SCOPE \<mapsto> 3))"
    by blast+
  from a have a': "fst ?r = 4" by simp
  from b have "heap_at (snd ?r) 0 = heap_at ?h 0" by simp
  then have b': "heap_at (snd ?r) 0 = Some (MapObj [''app:provider'' \<mapsto> 1, ''other:provider'' \<mapsto> 2])"
    by (simp add: heap_at_def)
  from c have c': "entries_of (snd ?r) 4 = [''app:provider'' \<mapsto> 3, ''other:provider'' \<mapsto> 2, ''app:dark'' \<mapsto> 3]"
    unfolding a' by (auto simp: entries_of_def heap_at_def gfqs_str gfqs_provider)
  from a' b' c' show ?thesis by blast
qed

section \<open>Store lemmas\<close>

lemma heap_at_store_set:
  "heap_at (store_set h s a v) x =
     (if x = s then (case heap_at h s of
                       Some (StoreObj cs hy) \<Rightarrow> Some (StoreObj (cs(a \<mapsto> v)) hy)
                     | other \<Rightarrow> other)
      else heap_at h x)"
  by (cases "heap_at h s")
     (auto simp: store_set_def heap_at_update heap_at_def split: jsobj.splits if_splits)

lemma heap_at_mark_hydrated:
  "heap_at (mark_hydrated h s a) x =
     (if x = s then (case heap_at h s of
                       Some (StoreObj cs hy) \<Rightarrow> Some (StoreObj cs (insert a hy))
                     | other \<Rightarrow> other)
      else heap_at h x)"
  by (cases "heap_at h s")
     (auto simp: mark_hydrated_def heap_at_update heap_at_def split: jsobj.splits if_splits)

lemma length_store_set [simp]: "length (store_set h s a v) = length h"
  by (simp add: store_set_def split: option.splits jsobj.splits)

lemma length_mark_hydrated [simp]: "length (mark_hydrated h s a) = length h"
  by (simp add: mark_hydrated_def split: option.splits jsobj.splits)

lemma is_store_store_set [simp]: "is_store (store_set h s a v) s' = is_store h s'"
  by (simp add: is_store_def heap_at_store_set split: option.splits jsobj.splits)

lemma is_store_mark_hydrated [simp]: "is_store (mark_hydrated h s a) s' = is_store h s'"
  by (simp add: is_store_def heap_at_mark_hydrated split: option.splits jsobj.splits)

lemma store_cells_store_set:
  "store_cells (store_set h s a v) s' =
     (if s' = s \<and> is_store h s then (store_cells h s)(a \<mapsto> v) else store_cells h s')"
  by (simp add: store_cells_def is_store_def heap_at_store_set split: option.splits jsobj.splits)

lemma store_hydrated_store_set [simp]:
  "store_hydrated (store_set h s a v) s' = store_hydrated h s'"
  by (simp add: store_hydrated_def heap_at_store_set split: option.splits jsobj.splits)

lemma store_cells_mark_hydrated [simp]:
  "store_cells (mark_hydrated h s a) s' = store_cells h s'"
  by (simp add: store_cells_def heap_at_mark_hydrated split: option.splits jsobj.splits)

lemma store_hydrated_mark_hydrated:
  "store_hydrated (mark_hydrated h s a) s' =
     (if s' = s \<and> is_store h s then insert a (store_hydrated h s) else store_hydrated h s')"
  by (simp add: store_hydrated_def is_store_def heap_at_mark_hydrated
      split: option.splits jsobj.splits)

lemma props_of_store_set [simp]: "props_of (store_set h s a v) x = props_of h x"
  by (simp add: props_of_def heap_at_store_set split: jsval.splits option.splits jsobj.splits)

lemma props_of_mark_hydrated [simp]: "props_of (mark_hydrated h s a) x = props_of h x"
  by (simp add: props_of_def heap_at_mark_hydrated split: jsval.splits option.splits jsobj.splits)

section \<open>Hydration\<close>

lemma field_own:
  "object_prototype k = None \<Longrightarrow> field m k = (case m k of Some v \<Rightarrow> v | None \<Rightarrow> Undefined)"
  by (simp add: field_def split: option.splits)

lemma field_inherited:
  "m k = None \<Longrightarrow> field m k = (case object_prototype k of Some v \<Rightarrow> v | None \<Rightarrow> Undefined)"
  by (simp add: field_def)

lemma hydrate_values_eq:
  "hydrate_values atoms iv acc =
     acc @ [(a, field iv k). (k, a) \<leftarrow> atoms, field iv k \<noteq> Undefined]"
  by (induction atoms arbitrary: acc) (auto simp: Let_def)

lemma useHydrateAtoms_length [simp]: "length (useHydrateAtoms vs s h) = length h"
  by (induction vs arbitrary: h) auto

lemma useHydrateAtoms_is_store [simp]: "is_store (useHydrateAtoms vs s h) s' = is_store h s'"
proof (induction vs arbitrary: h)
  case Nil
  show ?case by simp
next
  case (Cons x vs)
  obtain a v where x: "x = (a, v)" by (cases x)
  show ?case
    unfolding x by (simp add: Cons.IH)
qed

lemma useHydrateAtoms_props_of [simp]: "props_of (useHydrateAtoms vs s h) x = props_of h x"
proof (induction vs arbitrary: h)
  case Nil
  show ?case by simp
next
  case (Cons y vs)
  obtain a v where y: "y = (a, v)" by (cases y)
  show ?case
    unfolding y by (simp add: Cons.IH)
qed

lemma useHydrateAtoms_hydrated:
  "is_store h s \<Longrightarrow> store_hydrated (useHydrateAtoms vs s h) s = store_hydrated h s \<union> fst ` set vs"
proof (induction vs arbitrary: h)
  case Nil
  then show ?case by simp
next
  case (Cons x vs)
  obtain a v where x: "x = (a, v)" by (cases x)
  show ?case
  proof (cases "a \<in> store_hydrated h s")
    case True
    then show ?thesis using Cons x by auto
  next
    case False
    have "is_store (store_set (mark_hydrated h s a) s a v) s"
      using Cons.prems by simp
    from Cons.IH [OF this] False Cons.prems show ?thesis
      by (simp add: x store_hydrated_mark_hydrated)
  qed
qed

lemma useHydrateAtoms_cells:
  "is_store h s \<Longrightarrow>
   store_cells (useHydrateAtoms vs s h) s a =
     (if a \<in> store_hydrated h s then store_cells h s a
      else case map_of vs a of Some v \<Rightarrow> Some v | None \<Rightarrow> store_cells h s a)"
proof (induction vs arbitrary: h)
  case Nil
  then show ?case by simp
next
  case (Cons x vs)
  obtain b v where x: "x = (b, v)" by (cases x)
  show ?case
  proof (cases "b \<in> store_hydrated h s")
    case True
    then show ?thesis using Cons x by auto
  next
    case False
    have "is_store (store_set (mark_hydrated h s b) s b v) s"
      using Cons.prems by simp
    from Cons.IH [OF this] False Cons.prems show ?thesis
      by (simp add: x store_hydrated_mark_hydrated store_cells_store_set split: option.splits)
  qed
qed

lemma useHydrateAtoms_other_store:
  "s' \<noteq> s \<Longrightarrow> heap_at (useHydrateAtoms vs s h) s' = heap_at h s'"
  by (induction vs arbitrary: h) (auto simp: heap_at_store_set heap_at_mark_hydrated)


lemma map_of_hydrate_list_none:
  assumes "c \<notin> snd ` set atoms"
  shows "map_of [(a, field iv k). (k, a) \<leftarrow> atoms, field iv k \<noteq> Undefined] c = None"
  using assms by (induction atoms) (auto simp: image_iff)

lemma map_of_hydrate_list:
  assumes "distinct (map snd atoms)" "(key, atom) \<in> set atoms"
  shows "map_of [(a, field iv k). (k, a) \<leftarrow> atoms, field iv k \<noteq> Undefined] atom =
           (if field iv key \<noteq> Undefined then Some (field iv key) else None)"
  using assms
proof (induction atoms)
  case Nil
  then show ?case by simp
next
  case (Cons x atoms)
  obtain k a where x: "x = (k, a)" by (cases x)
  show ?case
  proof (cases "(key, atom) = x")
    case True
    with Cons.prems x have "atom \<notin> snd ` set atoms" by auto
    from map_of_hydrate_list_none [OF this, of iv] True x show ?thesis by simp
  next
    case False
    with Cons.prems x have in_rest: "(key, atom) \<in> set atoms" and d: "distinct (map snd atoms)"
      by auto
    from in_rest Cons.prems(1) x have ne: "a \<noteq> atom" by (auto simp: image_iff)
    from Cons.IH [OF d in_rest] ne show ?thesis by (simp add: x)
  qed
qed

lemma useHydrateStore_cell:
  assumes "is_store h store"
      and "distinct (map snd atoms)"
      and "(key, atom) \<in> set atoms"
      and "atom \<notin> store_hydrated h store"
  shows "store_cells (useHydrateStore atoms initialValues store h) store atom =
           (if field initialValues key \<noteq> Undefined then Some (field initialValues key)
            else store_cells h store atom)"
    and "atom \<in> store_hydrated (useHydrateStore atoms initialValues store h) store
           \<longleftrightarrow> field initialValues key \<noteq> Undefined"
proof -
  define vs where
    "vs = [(a, field initialValues k). (k, a) \<leftarrow> atoms, field initialValues k \<noteq> Undefined]"
  define h' where "h' = useHydrateStore atoms initialValues store h"
  have hv: "hydrate_values atoms initialValues [] = vs"
    unfolding vs_def by (simp add: hydrate_values_eq)
  have h': "h' = useHydrateAtoms vs store h"
    unfolding h'_def useHydrateStore_def hv ..
  have m: "map_of vs atom =
      (if field initialValues key \<noteq> Undefined then Some (field initialValues key) else None)"
    unfolding vs_def using assms(2,3) by (rule map_of_hydrate_list)
  have cells: "store_cells h' store atom =
      (case map_of vs atom of Some v \<Rightarrow> Some v | None \<Rightarrow> store_cells h store atom)"
    unfolding h' using assms(1,4) by (simp add: useHydrateAtoms_cells)
  have hyd: "store_hydrated h' store = store_hydrated h store \<union> fst ` set vs"
    unfolding h' using assms(1) by (rule useHydrateAtoms_hydrated)
  have dom: "atom \<in> fst ` set vs \<longleftrightarrow> map_of vs atom \<noteq> None"
    by (simp only: map_of_eq_None_iff not_not)
  have in_hyd: "atom \<in> store_hydrated h' store \<longleftrightarrow> field initialValues key \<noteq> Undefined"
    unfolding hyd using assms(4) dom m by simp
  have c: "store_cells h' store atom =
      (if field initialValues key \<noteq> Undefined then Some (field initialValues key)
       else store_cells h store atom)"
    unfolding cells m by simp
  from c show "store_cells (useHydrateStore atoms initialValues store h) store atom =
           (if field initialValues key \<noteq> Undefined then Some (field initialValues key)
            else store_cells h store atom)"
    unfolding h'_def .
  from in_hyd show "atom \<in> store_hydrated (useHydrateStore atoms initialValues store h) store
           \<longleftrightarrow> field initialValues key \<noteq> Undefined"
    unfolding h'_def .
qed

text \<open>
  Claim C6, as stated, has hydration seed every field whose entry in \<open>initialValues\<close> is
  defined and no field whose entry is \<open>undefined\<close> or absent.  Three instances where it
  does not:
  \<^item> the field \<open>count\<close> is hydrated with 1 and then, in the same store, with 2: the
    second entry is defined and the cell keeps 1 (\<open>useHydrateAtoms\<close> hydrates an atom
    once per store);
  \<^item> the fields \<open>a\<close> and \<open>b\<close> share one atom and are hydrated with 1 and 2: the
    entry of \<open>b\<close> is defined and its cell holds 1;
  \<^item> the field \<open>constructor\<close> has no entry in the empty \<open>initialValues\<close>, and its cell
    is seeded with \<open>Object\<close>, the member \<open>initialValues[key]\<close> inherits.
\<close>

theorem useHydrateStore_seeds_counterexample:
  "store_cells
     (useHydrateStore [(''count'', Ref 0)] [''count'' \<mapsto> Num 2] 1
        (useHydrateStore [(''count'', Ref 0)] [''count'' \<mapsto> Num 1] 1
           [Obj False [], StoreObj Map.empty {}]))
     1 (Ref 0) = Some (Num 1)
   \<and> store_cells
       (useHydrateStore [(''a'', Ref 0), (''b'', Ref 0)] [''a'' \<mapsto> Num 1, ''b'' \<mapsto> Num 2] 1
          [Obj False [], StoreObj Map.empty {}])
       1 (Ref 0) = Some (Num 1)
   \<and> (Map.empty :: string \<rightharpoonup> jsval) ''constructor'' = None
   \<and> store_cells
       (useHydrateStore [(''constructor'', Ref 0)] Map.empty 1
          [Obj False [], StoreObj Map.empty {}])
       1 (Ref 0) = Some (Intrinsic ''Object'')"
  by (simp add: useHydrateStore_def field_def object_prototype_def store_hydrated_def
      store_cells_def store_set_def mark_hydrated_def heap_at_def Let_def)

text \<open>
  Claim C6, amended: for every field of a record with distinct cells (no two fields share
  an atom) whose name is not the name of a member of \<open>Object.prototype\<close> and which has
  not been hydrated in the store yet: if its entry in \<open>initialValues\<close> is not
  \<open>undefined\<close> the cell holds that value afterwards and the field is marked hydrated; if
  its entry is \<open>undefined\<close> or absent, the cell is as it was and the field is still not
  hydrated.  (\<open>null\<close> is a defined entry.)
\<close>

theorem useHydrateStore_seeds:
  assumes "is_store h store"
      and "distinct (map snd atoms)"
      and "(key, atom) \<in> set atoms"
      and "atom \<notin> store_hydrated h store"
      and "object_prototype key = None"
  shows "(\<forall>v. initialValues key = Some v \<and> v \<noteq> Undefined \<longrightarrow>
            store_cells (useHydrateStore atoms initialValues store h) store atom = Some v
          \<and> atom \<in> store_hydrated (useHydrateStore atoms initialValues store h) store)
       \<and> (initialValues key = None \<or> initialValues key = Some Undefined \<longrightarrow>
            store_cells (useHydrateStore atoms initialValues store h) store atom
              = store_cells h store atom
          \<and> atom \<notin> store_hydrated (useHydrateStore atoms initialValues store h) store)"
proof -
  note cell = useHydrateStore_cell [OF assms(1-4), of initialValues]
  have own: "field initialValues key = (case initialValues key of Some v \<Rightarrow> v | None \<Rightarrow> Undefined)"
    using assms(5) by (rule field_own)
  have defined: "\<forall>v. initialValues key = Some v \<and> v \<noteq> Undefined \<longrightarrow>
            store_cells (useHydrateStore atoms initialValues store h) store atom = Some v
          \<and> atom \<in> store_hydrated (useHydrateStore atoms initialValues store h) store"
  proof (intro allI impI)
    fix v
    assume "initialValues key = Some v \<and> v \<noteq> Undefined"
    then have "field initialValues key = v" "v \<noteq> Undefined"
      unfolding own by simp_all
    with cell show "store_cells (useHydrateStore atoms initialValues store h) store atom = Some v
          \<and> atom \<in> store_hydrated (useHydrateStore atoms initialValues store h) store"
      by simp
  qed
  have undefined: "initialValues key = None \<or> initialValues key = Some Undefined \<longrightarrow>
            store_cells (useHydrateStore atoms initialValues store h) store atom
              = store_cells h store atom
          \<and> atom \<notin> store_hydrated (useHydrateStore atoms initialValues store h) store"
  proof
    assume "initialValues key = None \<or> initialValues key = Some Undefined"
    then have "field initialValues key = Undefined"
      unfolding own by auto
    with cell show "store_cells (useHydrateStore atoms initialValues store h) store atom
              = store_cells h store atom
          \<and> atom \<notin> store_hydrated (useHydrateStore atoms initialValues store h) store"
      by simp
  qed
  from defined undefined show ?thesis
    by (intro conjI)
qed

text \<open>
  The fields \<open>count\<close> and \<open>say\<close> hydrated with \<open>{ count: 1 }\<close> in a fresh store:
  \<open>count\<close> is seeded with 1, \<open>say\<close> is not seeded.
\<close>

theorem useHydrateStore_seeds_witness:
  "store_cells (useHydrateStore [(''count'', Ref 0), (''say'', Ref 1)] [''count'' \<mapsto> Num 1] 2
                    [Obj False [], Obj False [], StoreObj Map.empty {}]) 2 (Ref 0) = Some (Num 1)
   \<and> store_cells (useHydrateStore [(''count'', Ref 0), (''say'', Ref 1)] [''count'' \<mapsto> Num 1] 2
                    [Obj False [], Obj False [], StoreObj Map.empty {}]) 2 (Ref 1) = None
   \<and> Ref 1 \<notin> store_hydrated
                (useHydrateStore [(''count'', Ref 0), (''say'', Ref 1)] [''count'' \<mapsto> Num 1] 2
                    [Obj False [], Obj False [], StoreObj Map.empty {}]) 2"
proof -
  let ?atoms = "[(''count'', Ref 0), (''say'', Ref 1)]"
  let ?iv = "[''count'' \<mapsto> Num 1]"
  let ?h = "[Obj False [], Obj False [], StoreObj Map.empty {}]"
  have s: "is_store ?h 2"
    by (simp add: is_store_def heap_at_def)
  have d: "distinct (map snd ?atoms)"
    by simp
  have m: "(''count'', Ref 0) \<in> set ?atoms" "(''say'', Ref 1) \<in> set ?atoms"
    by simp_all
  have hy: "Ref 0 \<notin> store_hydrated ?h 2" "Ref 1 \<notin> store_hydrated ?h 2"
    by (simp_all add: store_hydrated_def heap_at_def)
  have pr: "object_prototype ''count'' = None" "object_prototype ''say'' = None"
    by (simp_all add: object_prototype_def)
  have c0: "store_cells ?h 2 (Ref 1) = None"
    by (simp add: store_cells_def heap_at_def)
  note a = useHydrateStore_seeds [OF s d m(1) hy(1) pr(1), of ?iv,
      THEN conjunct1, rule_format, of "Num 1"]
  note b = useHydrateStore_seeds [OF s d m(2) hy(2) pr(2), of ?iv,
      THEN conjunct2]
  have a': "store_cells (useHydrateStore ?atoms ?iv 2 ?h) 2 (Ref 0) = Some (Num 1)"
    using a by simp
  have b': "store_cells (useHydrateStore ?atoms ?iv 2 ?h) 2 (Ref 1) = store_cells ?h 2 (Ref 1)
      \<and> Ref 1 \<notin> store_hydrated (useHydrateStore ?atoms ?iv 2 ?h) 2"
    using b by simp
  from a' b' c0 show ?thesis
    by simp
qed

section \<open>Sync\<close>

lemma useSyncStore_Cons:
  "useSyncStore ((key, atom) # atoms) values store deps h =
     useSyncStore atoms values store (deps(key \<mapsto> (store, atom, field values key)))
       (if deps key = Some (store, atom, field values key) then h
        else if field values key \<noteq> Undefined \<and> field values key \<noteq> Null
             then store_set h store atom (field values key)
             else h)"
  by (simp add: Let_def)

lemma useSyncStore_is_store [simp]:
  "is_store (snd (useSyncStore atoms values s deps h)) s' = is_store h s'"
proof (induction atoms arbitrary: deps h)
  case Nil
  show ?case by simp
next
  case (Cons x atoms)
  obtain k a where x: "x = (k, a)" by (cases x)
  show ?case
    unfolding x useSyncStore_Cons by (simp add: Cons.IH)
qed

lemma useSyncStore_props_of [simp]:
  "props_of (snd (useSyncStore atoms values s deps h)) x = props_of h x"
proof (induction atoms arbitrary: deps h)
  case Nil
  show ?case by simp
next
  case (Cons y atoms)
  obtain k a where y: "y = (k, a)" by (cases y)
  show ?case
    unfolding y useSyncStore_Cons by (simp add: Cons.IH)
qed

lemma useSyncStore_hydrated [simp]:
  "store_hydrated (snd (useSyncStore atoms values s deps h)) s' = store_hydrated h s'"
proof (induction atoms arbitrary: deps h)
  case Nil
  show ?case by simp
next
  case (Cons y atoms)
  obtain k a where y: "y = (k, a)" by (cases y)
  show ?case
    unfolding y useSyncStore_Cons by (simp add: Cons.IH)
qed

lemma useSyncStore_length [simp]:
  "length (snd (useSyncStore atoms values s deps h)) = length h"
proof (induction atoms arbitrary: deps h)
  case Nil
  show ?case by simp
next
  case (Cons y atoms)
  obtain k a where y: "y = (k, a)" by (cases y)
  show ?case
    unfolding y useSyncStore_Cons by (simp add: Cons.IH)
qed

lemma useSyncStore_other_key:
  "key \<notin> fst ` set atoms \<Longrightarrow> fst (useSyncStore atoms values s deps h) key = deps key"
proof (induction atoms arbitrary: deps h)
  case Nil
  show ?case by simp
next
  case (Cons y atoms)
  obtain k a where y: "y = (k, a)" by (cases y)
  from Cons.prems y have "key \<noteq> k" "key \<notin> fst ` set atoms" by auto
  then show ?case
    unfolding y useSyncStore_Cons by (simp add: Cons.IH)
qed

lemma useSyncStore_other_atom:
  "c \<notin> snd ` set atoms \<Longrightarrow>
   store_cells (snd (useSyncStore atoms values s deps h)) s' c = store_cells h s' c"
proof (induction atoms arbitrary: deps h)
  case Nil
  show ?case by simp
next
  case (Cons y atoms)
  obtain k a where y: "y = (k, a)" by (cases y)
  from Cons.prems y have "c \<noteq> a" "c \<notin> snd ` set atoms" by auto
  then show ?case
    unfolding y useSyncStore_Cons by (simp add: Cons.IH store_cells_store_set)
qed

lemma useSyncStore_other_store:
  "s' \<noteq> s \<Longrightarrow> heap_at (snd (useSyncStore atoms values s deps h)) s' = heap_at h s'"
proof (induction atoms arbitrary: deps h)
  case Nil
  show ?case by simp
next
  case (Cons y atoms)
  obtain k a where y: "y = (k, a)" by (cases y)
  show ?case
    unfolding y useSyncStore_Cons using Cons.prems by (simp add: Cons.IH heap_at_store_set)
qed

lemma useSyncStore_field:
  assumes "is_store h store"
      and "distinct (map fst atoms)"
      and "distinct (map snd atoms)"
      and "(key, atom) \<in> set atoms"
  shows "fst (useSyncStore atoms values store deps h) key = Some (store, atom, field values key)
       \<and> store_cells (snd (useSyncStore atoms values store deps h)) store atom =
           (if deps key \<noteq> Some (store, atom, field values key)
               \<and> field values key \<noteq> Undefined \<and> field values key \<noteq> Null
            then Some (field values key)
            else store_cells h store atom)"
  using assms
proof (induction atoms arbitrary: deps h)
  case Nil
  then show ?case by simp
next
  case (Cons y atoms)
  obtain k a where y: "y = (k, a)" by (cases y)
  show ?case
  proof (cases "(key, atom) = (k, a)")
    case True
    then have eq: "key = k" "atom = a" by simp_all
    from Cons.prems(2,3) y have nk: "k \<notin> fst ` set atoms" and na: "a \<notin> snd ` set atoms"
      by auto
    show ?thesis
      unfolding y useSyncStore_Cons eq
      using Cons.prems(1)
      by (simp add: useSyncStore_other_key [OF nk] useSyncStore_other_atom [OF na]
          store_cells_store_set)
  next
    case False
    with Cons.prems y have rest: "(key, atom) \<in> set atoms"
      and dk: "distinct (map fst atoms)" and da: "distinct (map snd atoms)"
      by auto
    from rest Cons.prems(2,3) y have ne: "key \<noteq> k" "atom \<noteq> a"
      by (auto simp: image_iff)
    define h1 where "h1 = (if deps k = Some (store, a, field values k) then h
        else if field values k \<noteq> Undefined \<and> field values k \<noteq> Null
             then store_set h store a (field values k)
             else h)"
    define d1 where "d1 = deps(k \<mapsto> (store, a, field values k))"
    have step: "useSyncStore (y # atoms) values store deps h = useSyncStore atoms values store d1 h1"
      unfolding y useSyncStore_Cons h1_def d1_def ..
    have st: "is_store h1 store" using Cons.prems(1) by (simp add: h1_def)
    have cells: "store_cells h1 store atom = store_cells h store atom"
      using ne by (simp add: h1_def store_cells_store_set)
    have d1k: "d1 key = deps key"
      using ne by (simp add: d1_def)
    from Cons.IH [OF st dk da rest, of d1]
    show ?thesis
      unfolding step cells d1k .
  qed
qed


text \<open>
  Claim C5, as stated, has sync write the external value if and only if the value changed
  and is neither \<open>undefined\<close> nor \<open>null\<close>.  Two instances where it does not:
  \<^item> the effect also depends on \<open>set\<close>: the last commit synced the value 5 into store
    1, the next render passes store 2 (as the Provider does after a reset) and the same
    value 5, and sync writes 5 into the cell of store 2, which held nothing;
  \<^item> the field \<open>constructor\<close> has no external value (the synced props are empty), and
    sync writes \<open>Object\<close> into its cell, the member \<open>values[key]\<close> inherits.
\<close>

theorem useSyncStore_writes_counterexample:
  "field [''count'' \<mapsto> Num 5] ''count'' = Num 5
   \<and> store_cells [Obj False [], StoreObj [Ref 0 \<mapsto> Num 5] {}, StoreObj Map.empty {}] 2 (Ref 0) = None
   \<and> store_cells
       (snd (useSyncStore [(''count'', Ref 0)] [''count'' \<mapsto> Num 5] 2
               [''count'' \<mapsto> (1, Ref 0, Num 5)]
               [Obj False [], StoreObj [Ref 0 \<mapsto> Num 5] {}, StoreObj Map.empty {}]))
       2 (Ref 0) = Some (Num 5)
   \<and> (Map.empty :: string \<rightharpoonup> jsval) ''constructor'' = None
   \<and> store_cells
       (snd (useSyncStore [(''constructor'', Ref 0)] Map.empty 1 Map.empty
               [Obj False [], StoreObj Map.empty {}]))
       1 (Ref 0) = Some (Intrinsic ''Object'')"
  by (simp add: field_def object_prototype_def store_cells_def store_set_def heap_at_def Let_def)

text \<open>
  Claim C5, amended: for every field of the synced record (distinct keys, distinct cells)
  whose name is not the name of a member of \<open>Object.prototype\<close>, and every commit: the
  external value is the field's own entry in the synced props (\<open>undefined\<close> when it has
  none), and sync writes it into the field's cell if and only if it is neither
  \<open>undefined\<close> nor \<open>null\<close> and the dependencies \<open>[set, value]\<close> of its effect
  changed: on the first commit, or when the value or the setter (that is, the store it is
  bound to) is not the one of the last commit.  Otherwise the cell is as it was.  A second
  sync with a different value that is neither \<open>undefined\<close> nor \<open>null\<close> overwrites the
  cell again.
\<close>

theorem useSyncStore_writes:
  assumes "is_store h store"
      and "distinct (map fst atoms)"
      and "distinct (map snd atoms)"
      and "(key, atom) \<in> set atoms"
      and "object_prototype key = None"
  shows "field values key = (case values key of Some v \<Rightarrow> v | None \<Rightarrow> Undefined)
       \<and> fst (useSyncStore atoms values store deps h) key = Some (store, atom, field values key)
       \<and> store_cells (snd (useSyncStore atoms values store deps h)) store atom =
           (if deps key \<noteq> Some (store, atom, field values key)
               \<and> field values key \<noteq> Undefined \<and> field values key \<noteq> Null
            then Some (field values key)
            else store_cells h store atom)
       \<and> (field values' key \<noteq> field values key
            \<and> field values' key \<noteq> Undefined \<and> field values' key \<noteq> Null \<longrightarrow>
          store_cells
            (snd (useSyncStore atoms values' store
                    (fst (useSyncStore atoms values store deps h))
                    (snd (useSyncStore atoms values store deps h))))
            store atom = Some (field values' key))"
proof -
  note own = field_own [OF assms(5), of "values"]
  note first = useSyncStore_field [OF assms(1-4), of "values" deps]
  have st: "is_store (snd (useSyncStore atoms values store deps h)) store"
    using assms(1) by simp
  note second = useSyncStore_field [OF st assms(2-4), of values'
      "fst (useSyncStore atoms values store deps h)"]
  from own first second show ?thesis by simp
qed

text \<open>
  The field \<open>count\<close> synced with 5 on the first commit and with 6 on the second: the cell
  holds 5, then 6.  Synced with \<open>null\<close>, a cell that holds 7 keeps it.
\<close>

theorem useSyncStore_writes_witness:
  "store_cells
     (snd (useSyncStore [(''count'', Ref 0)] [''count'' \<mapsto> Num 5] 1 Map.empty
             [Obj False [], StoreObj Map.empty {}]))
     1 (Ref 0) = Some (Num 5)
   \<and> store_cells
       (snd (useSyncStore [(''count'', Ref 0)] [''count'' \<mapsto> Num 6] 1
               (fst (useSyncStore [(''count'', Ref 0)] [''count'' \<mapsto> Num 5] 1 Map.empty
                       [Obj False [], StoreObj Map.empty {}]))
               (snd (useSyncStore [(''count'', Ref 0)] [''count'' \<mapsto> Num 5] 1 Map.empty
                       [Obj False [], StoreObj Map.empty {}]))))
       1 (Ref 0) = Some (Num 6)
   \<and> store_cells
       (snd (useSyncStore [(''count'', Ref 0)] [''count'' \<mapsto> Null] 1 Map.empty
               [Obj False [], StoreObj [Ref 0 \<mapsto> Num 7] {}]))
       1 (Ref 0) = Some (Num 7)"
proof -
  let ?atoms = "[(''count'', Ref 0)]"
  let ?h = "[Obj False [], StoreObj Map.empty {}]"
  let ?h' = "[Obj False [], StoreObj [Ref 0 \<mapsto> Num 7] {}]"
  have s: "is_store ?h 1" "is_store ?h' 1"
    by (simp_all add: is_store_def heap_at_def)
  have d: "distinct (map fst ?atoms)" "distinct (map snd ?atoms)" "(''count'', Ref 0) \<in> set ?atoms"
    "object_prototype ''count'' = None"
    by (simp_all add: object_prototype_def)
  note a = useSyncStore_writes [OF s(1) d, of "[''count'' \<mapsto> Num 5]" Map.empty "[''count'' \<mapsto> Num 6]"]
  note b = useSyncStore_writes [OF s(2) d, of "[''count'' \<mapsto> Null]" Map.empty "[''count'' \<mapsto> Null]"]
  have c7: "store_cells ?h' 1 (Ref 0) = Some (Num 7)"
    by (simp add: store_cells_def heap_at_def)
  from a b c7 show ?thesis
    by (simp add: field_def del: useSyncStore.simps)
qed

section \<open>Building the store: base fields and extension\<close>

lemma isAtom_Ref: "isAtom h v \<Longrightarrow> \<exists>a. v = Ref a"
  by (cases v) (auto simp: isAtom_def typeof_def in_obj_def props_of_def)

lemma jotai_atom_Ref: "\<exists>a. fst (jotai_atom h rd wr) = Ref a"
  by (simp add: jotai_atom_def alloc_def Let_def)

lemma atomWithFn_Ref: "\<exists>a. fst (atomWithFn h v) = Ref a"
  by (simp add: atomWithFn_def alloc_def Let_def split_beta jotai_atom_Ref)

lemma js_in_Ref: "js_in h k (Ref a) = Inr (in_obj h k (Ref a))"
  by (simp add: js_in_def)

lemma base_loop_Cons:
  "base_loop ((key, atomOrValue) # rest) r h =
     (let p = (if isAtom h atomOrValue then (atomOrValue, h) else atomWithFn h atomOrValue)
      in case js_in (snd p) ''write'' (fst p) of
           Inl e \<Rightarrow> Inl e
         | Inr writable \<Rightarrow>
             base_loop rest
               \<lparr>atomsWithoutExtend = AList.update key (fst p) (atomsWithoutExtend r),
                writableAtomsWithoutExtend =
                  (if writable then AList.update key (fst p) (writableAtomsWithoutExtend r)
                   else writableAtomsWithoutExtend r),
                atomIsWritable = AList.update key writable (atomIsWritable r)\<rparr>
               (snd p))"
  by (simp add: Let_def split_beta)

lemma base_step_Ref:
  "\<exists>a. fst (if isAtom h v then (v, h) else atomWithFn h v) = Ref a"
  using isAtom_Ref [of h v] atomWithFn_Ref [of h v] by auto

text \<open>
  The first loop never fails: every \<open>atomConfig\<close> it tests with \<open>'write' in\<close> is an
  object, either a value \<open>isAtom\<close> accepted or the atom \<open>atomWithFn\<close> made.
\<close>

lemma base_loop_succeeds: "\<exists>r' h'. base_loop es r h = Inr (r', h')"
proof (induction es arbitrary: r h)
  case Nil
  show ?case by simp
next
  case (Cons x es)
  obtain k v where x: "x = (k, v)" by (cases x)
  define p where "p = (if isAtom h v then (v, h) else atomWithFn h v)"
  obtain a where a: "fst p = Ref a" using base_step_Ref [of h v] by (auto simp: p_def)
  show ?case
    unfolding x base_loop_Cons p_def [symmetric] Let_def a js_in_Ref
    using Cons.IH by simp
qed

lemma base_loop_writable_keys:
  "base_loop es r h = Inr (r', h') \<Longrightarrow>
   fst ` set (writableAtomsWithoutExtend r') \<subseteq> fst ` set (writableAtomsWithoutExtend r) \<union> fst ` set es"
proof (induction es arbitrary: r h)
  case Nil
  then show ?case by simp
next
  case (Cons x es)
  obtain k v where x: "x = (k, v)" by (cases x)
  define p where "p = (if isAtom h v then (v, h) else atomWithFn h v)"
  obtain a where a: "fst p = Ref a" using base_step_Ref [of h v] by (auto simp: p_def)
  define r1 where "r1 = \<lparr>atomsWithoutExtend = AList.update k (fst p) (atomsWithoutExtend r),
                writableAtomsWithoutExtend =
                  (if in_obj (snd p) ''write'' (Ref a) then AList.update k (fst p) (writableAtomsWithoutExtend r)
                   else writableAtomsWithoutExtend r),
                atomIsWritable = AList.update k (in_obj (snd p) ''write'' (Ref a)) (atomIsWritable r)\<rparr>"
  have step: "base_loop (x # es) r h = base_loop es r1 (snd p)"
    unfolding x base_loop_Cons p_def [symmetric] Let_def js_in_Ref r1_def a by simp
  from Cons.prems step have "base_loop es r1 (snd p) = Inr (r', h')" by simp
  from Cons.IH [OF this]
  have "fst ` set (writableAtomsWithoutExtend r') \<subseteq> fst ` set (writableAtomsWithoutExtend r1) \<union> fst ` set es" .
  moreover have "fst ` set (writableAtomsWithoutExtend r1) \<subseteq> insert k (fst ` set (writableAtomsWithoutExtend r))"
    by (auto simp: r1_def dom_update)
  ultimately show ?case unfolding x by auto
qed







section \<open>What the Provider hydrates and syncs\<close>

lemma base_loop_writable_entries:
  assumes "base_loop es r h = Inr (r', h')"
      and "distinct (map fst es)"
      and "fst ` set (writableAtomsWithoutExtend r) \<inter> fst ` set es = {}"
      and "\<forall>k a. map_of (writableAtomsWithoutExtend r) k = Some a \<longrightarrow>
             map_of (atomsWithoutExtend r) k = Some a \<and> map_of (atomIsWritable r) k = Some True"
  shows "\<forall>k a. map_of (writableAtomsWithoutExtend r') k = Some a \<longrightarrow>
             map_of (atomsWithoutExtend r') k = Some a \<and> map_of (atomIsWritable r') k = Some True"
  using assms
proof (induction es arbitrary: r h)
  case Nil
  then show ?case by simp
next
  case (Cons x es)
  obtain k v where x: "x = (k, v)" by (cases x)
  define p where "p = (if isAtom h v then (v, h) else atomWithFn h v)"
  obtain a where a: "fst p = Ref a" using base_step_Ref [of h v] by (auto simp: p_def)
  define wr where "wr = in_obj (snd p) ''write'' (Ref a)"
  define r1 where "r1 = \<lparr>atomsWithoutExtend = AList.update k (Ref a) (atomsWithoutExtend r),
                writableAtomsWithoutExtend =
                  (if wr then AList.update k (Ref a) (writableAtomsWithoutExtend r)
                   else writableAtomsWithoutExtend r),
                atomIsWritable = AList.update k wr (atomIsWritable r)\<rparr>"
  have step: "base_loop (x # es) r h = base_loop es r1 (snd p)"
    unfolding x base_loop_Cons p_def [symmetric] Let_def a js_in_Ref r1_def wr_def by simp
  from Cons.prems(1) step have run: "base_loop es r1 (snd p) = Inr (r', h')" by simp
  from Cons.prems(2) x have d: "distinct (map fst es)" and nk: "k \<notin> fst ` set es" by auto
  from Cons.prems(3) x have knew: "k \<notin> fst ` set (writableAtomsWithoutExtend r)"
    and disj: "fst ` set (writableAtomsWithoutExtend r) \<inter> fst ` set es = {}"
    by auto
  have keys1: "fst ` set (writableAtomsWithoutExtend r1) \<subseteq> insert k (fst ` set (writableAtomsWithoutExtend r))"
    by (auto simp: r1_def dom_update)
  from keys1 nk disj have disj1: "fst ` set (writableAtomsWithoutExtend r1) \<inter> fst ` set es = {}"
    by auto
  from knew have none: "map_of (writableAtomsWithoutExtend r) k = None"
    by (simp add: map_of_eq_None_iff)
  have inv1: "\<forall>k' a'. map_of (writableAtomsWithoutExtend r1) k' = Some a' \<longrightarrow>
             map_of (atomsWithoutExtend r1) k' = Some a' \<and> map_of (atomIsWritable r1) k' = Some True"
  proof (intro allI impI)
    fix k' a'
    assume m: "map_of (writableAtomsWithoutExtend r1) k' = Some a'"
    show "map_of (atomsWithoutExtend r1) k' = Some a' \<and> map_of (atomIsWritable r1) k' = Some True"
    proof (cases "k' = k")
      case True
      with m none show ?thesis
        by (cases wr) (simp_all add: r1_def update_conv')
    next
      case False
      with m have "map_of (writableAtomsWithoutExtend r) k' = Some a'"
        by (cases wr) (simp_all add: r1_def update_conv')
      with Cons.prems(4) False show ?thesis
        by (simp add: r1_def update_conv')
    qed
  qed
  from Cons.IH [OF run d disj1 inv1] show ?case .
qed

text \<open>
  The heap only grows while the first loop runs, so an atom that has \<open>write\<close> when the
  loop records it as writable still has it when the loop ends.
\<close>

lemma in_obj_append: "in_obj h k v \<Longrightarrow> in_obj (h @ xs) k v"
  by (cases v)
     (auto simp: in_obj_def props_of_def heap_at_def nth_append split: option.splits if_splits)

lemma jotai_atom_grows: "\<exists>xs. snd (jotai_atom h rd wr) = h @ xs"
  by (simp add: jotai_atom_def alloc_def Let_def)

lemma atomWithFn_grows: "\<exists>xs. snd (atomWithFn h v) = h @ xs"
proof -
  obtain xs1 where w: "snd (wrapFn h v) = h @ xs1"
    by (cases "typeof h v = ''function''") (auto simp: wrapFn_def alloc_def)
  define h1 where "h1 = snd (wrapFn h v)"
  define h2 where "h2 = snd (jotai_atom h1 (fst (wrapFn h v)) Undefined)"
  define h4 where "h4 = (h2 @ [Obj True []]) @ [Obj True []]"
  obtain xs2 where j1: "h2 = h1 @ xs2"
    unfolding h2_def using jotai_atom_grows by blast
  obtain xs3 where j2:
    "snd (jotai_atom h4 (Ref (length h2)) (Ref (Suc (length h2)))) = h4 @ xs3"
    using jotai_atom_grows by blast
  have "snd (atomWithFn h v) = snd (jotai_atom h4 (Ref (length h2)) (Ref (Suc (length h2))))"
    by (simp add: atomWithFn_def alloc_def Let_def split_beta h1_def h2_def h4_def)
  then have e: "snd (atomWithFn h v) = h4 @ xs3"
    by (simp only: j2)
  have "h4 = h @ (xs1 @ xs2 @ [Obj True [], Obj True []])"
    by (simp add: h4_def j1 h1_def w)
  with e have "snd (atomWithFn h v) = h @ ((xs1 @ xs2 @ [Obj True [], Obj True []]) @ xs3)"
    by simp
  then show ?thesis by blast
qed

lemma base_loop_writable_in_obj:
  assumes "base_loop es r h = Inr (r', h')"
      and "\<forall>k a. map_of (writableAtomsWithoutExtend r) k = Some a \<longrightarrow> in_obj h ''write'' a"
  shows "\<forall>k a. map_of (writableAtomsWithoutExtend r') k = Some a \<longrightarrow> in_obj h' ''write'' a"
  using assms
proof (induction es arbitrary: r h)
  case Nil
  then show ?case by simp
next
  case (Cons x es)
  obtain k v where x: "x = (k, v)" by (cases x)
  define p where "p = (if isAtom h v then (v, h) else atomWithFn h v)"
  obtain a where a: "fst p = Ref a" using base_step_Ref [of h v] by (auto simp: p_def)
  define wr where "wr = in_obj (snd p) ''write'' (Ref a)"
  define r1 where "r1 = \<lparr>atomsWithoutExtend = AList.update k (Ref a) (atomsWithoutExtend r),
                writableAtomsWithoutExtend =
                  (if wr then AList.update k (Ref a) (writableAtomsWithoutExtend r)
                   else writableAtomsWithoutExtend r),
                atomIsWritable = AList.update k wr (atomIsWritable r)\<rparr>"
  have step: "base_loop (x # es) r h = base_loop es r1 (snd p)"
    unfolding x base_loop_Cons p_def [symmetric] Let_def a js_in_Ref r1_def wr_def by simp
  from Cons.prems(1) step have run: "base_loop es r1 (snd p) = Inr (r', h')" by simp
  obtain xs where grows: "snd p = h @ xs"
  proof (cases "isAtom h v")
    case True
    then have "snd p = h @ []" by (simp add: p_def)
    then show ?thesis by (rule that)
  next
    case False
    then have "snd p = snd (atomWithFn h v)" by (simp add: p_def)
    with atomWithFn_grows [of h v] show ?thesis using that by auto
  qed
  have inv1: "\<forall>k' a'. map_of (writableAtomsWithoutExtend r1) k' = Some a' \<longrightarrow>
                in_obj (snd p) ''write'' a'"
  proof (intro allI impI)
    fix k' a'
    assume m: "map_of (writableAtomsWithoutExtend r1) k' = Some a'"
    show "in_obj (snd p) ''write'' a'"
    proof (cases "wr \<and> k' = k")
      case True
      with m have "a' = Ref a" by (simp add: r1_def update_conv')
      with True show ?thesis by (simp add: wr_def)
    next
      case False
      with m have "map_of (writableAtomsWithoutExtend r) k' = Some a'"
        by (cases wr) (simp_all add: r1_def update_conv')
      with Cons.prems(2) have "in_obj h ''write'' a'" by blast
      then show ?thesis unfolding grows by (rule in_obj_append)
    qed
  qed
  from Cons.IH [OF run inv1] show ?case .
qed

lemma createAtomStore_provider_atoms:
  assumes "base_loop initialState
             \<lparr>atomsWithoutExtend = [], writableAtomsWithoutExtend = [], atomIsWritable = []\<rparr>
             (objs w) = Inr (r, h1)"
      and "createAtomStore initialState name extendFn w = Inr (st, w')"
  shows "provider_atoms st = writableAtomsWithoutExtend r"
  using assms(2) unfolding createAtomStore_def assms(1)
  by (auto simp: Let_def split_beta split: sum.splits)

text \<open>
  The record \<open>createAtomStore\<close> hands to \<open>createAtomProvider\<close> is
  \<open>writableAtomsWithoutExtend\<close>, whatever \<open>extend\<close> is: each of its entries is a base
  field (a key of \<open>initialState\<close>) with its base atom, flagged writable, and the atom has
  \<open>write\<close> in the heap the first loop leaves.
\<close>

lemma provider_atoms_writable_base:
  assumes "base_loop initialState
             \<lparr>atomsWithoutExtend = [], writableAtomsWithoutExtend = [], atomIsWritable = []\<rparr>
             (objs w) = Inr (r, h1)"
      and "createAtomStore initialState name extendFn w = Inr (st, w')"
      and "distinct (map fst initialState)"
  shows "provider_atoms st = writableAtomsWithoutExtend r
       \<and> (\<forall>k a. map_of (provider_atoms st) k = Some a \<longrightarrow>
              k \<in> fst ` set initialState
            \<and> map_of (atomsWithoutExtend r) k = Some a
            \<and> map_of (atomIsWritable r) k = Some True
            \<and> in_obj h1 ''write'' a)"
proof -
  have pa: "provider_atoms st = writableAtomsWithoutExtend r"
    using assms(1,2) by (rule createAtomStore_provider_atoms)
  have keys: "fst ` set (writableAtomsWithoutExtend r) \<subseteq> fst ` set initialState"
    using base_loop_writable_keys [OF assms(1)] by simp
  have inv: "\<forall>k a. map_of (writableAtomsWithoutExtend r) k = Some a \<longrightarrow>
             map_of (atomsWithoutExtend r) k = Some a \<and> map_of (atomIsWritable r) k = Some True"
    by (rule base_loop_writable_entries [OF assms(1) assms(3)]) simp_all
  have wr: "\<forall>k a. map_of (writableAtomsWithoutExtend r) k = Some a \<longrightarrow> in_obj h1 ''write'' a"
    by (rule base_loop_writable_in_obj [OF assms(1)]) simp
  have entries: "\<forall>k a. map_of (provider_atoms st) k = Some a \<longrightarrow>
              k \<in> fst ` set initialState
            \<and> map_of (atomsWithoutExtend r) k = Some a
            \<and> map_of (atomIsWritable r) k = Some True
            \<and> in_obj h1 ''write'' a"
  proof (intro allI impI)
    fix k a
    assume m: "map_of (provider_atoms st) k = Some a"
    then have "(k, a) \<in> set (writableAtomsWithoutExtend r)"
      unfolding pa by (rule map_of_SomeD)
    then have "k \<in> fst ` set (writableAtomsWithoutExtend r)"
      by (simp add: rev_image_eqI)
    with keys have "k \<in> fst ` set initialState" ..
    with inv wr m show "k \<in> fst ` set initialState
            \<and> map_of (atomsWithoutExtend r) k = Some a
            \<and> map_of (atomIsWritable r) k = Some True
            \<and> in_obj h1 ''write'' a"
      unfolding pa by simp
  qed
  from pa entries show ?thesis by (intro conjI)
qed

lemma useHydrateAtoms_frame:
  "c \<notin> fst ` set vs \<Longrightarrow>
   store_cells (useHydrateAtoms vs s h) s' c = store_cells h s' c
   \<and> (c \<in> store_hydrated (useHydrateAtoms vs s h) s') = (c \<in> store_hydrated h s')"
proof (induction vs arbitrary: h)
  case Nil
  show ?case by simp
next
  case (Cons x vs)
  obtain a v where x: "x = (a, v)" by (cases x)
  from Cons.prems x have ne: "c \<noteq> a" and rest: "c \<notin> fst ` set vs" by auto
  show ?case
  proof (cases "a \<in> store_hydrated h s")
    case True
    with Cons.IH [OF rest, of h] show ?thesis by (simp add: x)
  next
    case False
    define h1 where "h1 = store_set (mark_hydrated h s a) s a v"
    have step: "useHydrateAtoms (x # vs) s h = useHydrateAtoms vs s h1"
      using False by (simp add: x h1_def)
    have c1: "store_cells h1 s' c = store_cells h s' c"
      using ne by (simp add: h1_def store_cells_store_set)
    have y1: "(c \<in> store_hydrated h1 s') = (c \<in> store_hydrated h s')"
      using ne by (simp add: h1_def store_hydrated_mark_hydrated)
    from Cons.IH [OF rest, of h1] show ?thesis
      unfolding step c1 y1 .
  qed
qed

lemma hydrate_list_atoms:
  "fst ` set [(a, field iv k). (k, a) \<leftarrow> atoms, field iv k \<noteq> Undefined] \<subseteq> snd ` set atoms"
  by force

lemma useHydrateStore_frame:
  assumes "c \<notin> snd ` set atoms"
  shows "store_cells (useHydrateStore atoms iv s h) s' c = store_cells h s' c
       \<and> (c \<in> store_hydrated (useHydrateStore atoms iv s h) s') = (c \<in> store_hydrated h s')"
proof -
  from assms hydrate_list_atoms [of iv atoms]
  have "c \<notin> fst ` set [(a, field iv k). (k, a) \<leftarrow> atoms, field iv k \<noteq> Undefined]"
    by blast
  from useHydrateAtoms_frame [OF this] show ?thesis
    by (simp add: useHydrateStore_def hydrate_values_eq)
qed

text \<open>\<open>HydrateAtoms\<close> below a Provider that is given no prop named \<open>atoms\<close>.\<close>

lemma HydrateAtoms_record:
  assumes "p ''atoms'' = None"
  shows "HydrateAtoms atoms p s deps h =
           Inr (useSyncStore atoms (p |` (- {''initialValues'', ''children'', ''store'', ''atoms''}))
                  s deps
                  (useHydrateStore atoms
                     (spread h (field p ''initialValues'')
                        ++ p |` (- {''initialValues'', ''children'', ''store'', ''atoms''}))
                     s h))"
  using assms by (simp add: HydrateAtoms_def Let_def)

lemma HydrateAtoms_frame:
  assumes "p ''atoms'' = None"
      and "HydrateAtoms atoms p s deps h = Inr r"
      and "c \<notin> snd ` set atoms"
  shows "store_cells (snd r) s' c = store_cells h s' c
       \<and> (c \<in> store_hydrated (snd r) s') = (c \<in> store_hydrated h s')"
  using assms(2) unfolding HydrateAtoms_record [where p = p, OF assms(1)]
  using useHydrateStore_frame [OF assms(3)] useSyncStore_other_atom [OF assms(3)]
  by auto

lemma hydrate_values_cong:
  "\<forall>k \<in> fst ` set atoms. field iv k = field iv' k \<Longrightarrow>
   hydrate_values atoms iv acc = hydrate_values atoms iv' acc"
proof (induction atoms arbitrary: acc)
  case Nil
  show ?case by simp
next
  case (Cons x atoms)
  obtain k a where x: "x = (k, a)" by (cases x)
  from Cons.prems x have k: "field iv k = field iv' k"
    and rest: "\<forall>k \<in> fst ` set atoms. field iv k = field iv' k" by auto
  show ?case
    unfolding x using Cons.IH [OF rest] k by (simp add: Let_def)
qed

lemma field_map_add: "field (m ++ n) k = (case n k of Some v \<Rightarrow> v | None \<Rightarrow> field m k)"
  by (simp add: field_def map_add_def split: option.splits)

text \<open>
  Without a prop named \<open>atoms\<close>, \<open>initialValues\<close> is read at the keys of the record only:
  replacing it by an object that reads alike at these keys changes nothing.
\<close>

lemma HydrateAtoms_initialValues:
  assumes "p ''atoms'' = None"
      and "\<forall>k \<in> fst ` set atoms.
             field (spread h (field p ''initialValues'')) k = field (spread h iv') k"
  shows "HydrateAtoms atoms (p(''initialValues'' \<mapsto> iv')) s deps h = HydrateAtoms atoms p s deps h"
proof -
  let ?drop = "- {''initialValues'', ''children'', ''store'', ''atoms''}"
  have props: "(p(''initialValues'' \<mapsto> iv')) |` ?drop = p |` ?drop"
    by (auto simp: restrict_map_def fun_eq_iff)
  have iv: "field (p(''initialValues'' \<mapsto> iv')) ''initialValues'' = iv'"
    by (simp add: field_def)
  have at: "(p(''initialValues'' \<mapsto> iv')) ''atoms'' = None"
    using assms(1) by simp
  have "\<forall>k \<in> fst ` set atoms.
          field (spread h iv' ++ p |` ?drop) k
            = field (spread h (field p ''initialValues'') ++ p |` ?drop) k"
    using assms(2) by (simp add: field_map_add split: option.splits)
  from hydrate_values_cong [OF this]
  have "useHydrateStore atoms (spread h iv' ++ p |` ?drop) s h
          = useHydrateStore atoms (spread h (field p ''initialValues'') ++ p |` ?drop) s h"
    by (simp add: useHydrateStore_def)
  then show ?thesis
    unfolding HydrateAtoms_record [where p = p, OF assms(1)]
      HydrateAtoms_record [where p = "p(''initialValues'' \<mapsto> iv')", OF at] props iv by simp
qed

text \<open>
  \<open>createAtomStore({ count: 1, atoms: {} }, { name: 'app', extend })\<close> with an
  \<open>extend\<close> that adds the writable primitive atom \<open>extra\<close> (jotai's \<open>atom(0)\<close>), on a
  heap that holds the object \<open>{}\<close> at address 0: the base atoms are at addresses 10
  (\<open>count\<close>) and 20 (\<open>atoms\<close>), the extension's atom at address 24, and the Provider is
  built from the two base atoms.
\<close>

lemma base_loop_count_atoms:
  "base_loop [(''count'', Num 1), (''atoms'', Ref 0)]
     \<lparr>atomsWithoutExtend = [], writableAtomsWithoutExtend = [], atomIsWritable = []\<rparr>
     [Obj False []]
   = Inr (\<lparr>atomsWithoutExtend = [(''count'', Ref 10), (''atoms'', Ref 20)],
           writableAtomsWithoutExtend = [(''count'', Ref 10), (''atoms'', Ref 20)],
           atomIsWritable = [(''count'', True), (''atoms'', True)]\<rparr>,
          [Obj False [], Obj True [], Obj True [], Obj True [],
           Obj False [(''toString'', Ref 1), (''init'', Num 1), (''read'', Ref 2), (''write'', Ref 3)],
           Obj True [], Obj True [], Obj True [], Obj True [], Obj True [],
           Obj False [(''toString'', Ref 7), (''read'', Ref 5), (''write'', Ref 6)],
           Obj True [], Obj True [], Obj True [],
           Obj False [(''toString'', Ref 11), (''init'', Ref 0), (''read'', Ref 12), (''write'', Ref 13)],
           Obj True [], Obj True [], Obj True [], Obj True [], Obj True [],
           Obj False [(''toString'', Ref 17), (''read'', Ref 15), (''write'', Ref 16)]])"
  by (simp add: isAtom_def atomWithFn_def wrapFn_def jotai_atom_def alloc_def typeof_def heap_at_def
      js_in_def in_obj_def props_of_def Let_def)

lemma createAtomStore_count_atoms_extra:
  "createAtomStore [(''count'', Num 1), (''atoms'', Ref 0)] ''app''
     (Some (\<lambda>atoms h. (let (a, h') = jotai_atom h (Num 0) Undefined in ([(''extra'', a)], h'))))
     \<lparr>objs = [Obj False []], console = []\<rparr>
   = Inr (\<lparr>store_name = ''app'',
           store_atoms = [(''count'', Ref 10), (''atoms'', Ref 20), (''extra'', Ref 24)],
           store_atomIsWritable = [(''count'', True), (''atoms'', True), (''extra'', True)],
           provider_atoms = [(''count'', Ref 10), (''atoms'', Ref 20)],
           get_keys = [''count'', ''atoms'', ''extra''],
           set_keys = [''count'', ''atoms'', ''extra'']\<rparr>,
          \<lparr>objs = [Obj False [], Obj True [], Obj True [], Obj True [],
             Obj False [(''toString'', Ref 1), (''init'', Num 1), (''read'', Ref 2), (''write'', Ref 3)],
             Obj True [], Obj True [], Obj True [], Obj True [], Obj True [],
             Obj False [(''toString'', Ref 7), (''read'', Ref 5), (''write'', Ref 6)],
             Obj True [], Obj True [], Obj True [],
             Obj False [(''toString'', Ref 11), (''init'', Ref 0), (''read'', Ref 12), (''write'', Ref 13)],
             Obj True [], Obj True [], Obj True [], Obj True [], Obj True [],
             Obj False [(''toString'', Ref 17), (''read'', Ref 15), (''write'', Ref 16)],
             Obj True [], Obj True [], Obj True [],
             Obj False [(''toString'', Ref 21), (''init'', Num 0), (''read'', Ref 22), (''write'', Ref 23)]],
           console = []\<rparr>)"
  by (simp add: createAtomStore_def base_loop_count_atoms jotai_atom_def alloc_def typeof_def
      js_in_def in_obj_def props_of_def heap_at_def writable_keys_def Let_def
      del: base_loop.simps)

text \<open>
  Claim C7 says that hydration and sync only ever target the writable base-field cells,
  because the Provider is constructed with only the writable non-extension atoms.  It is
  constructed so, but it renders
  \<open><HydrateAtoms store={storeState} atoms={atoms} {...props}>\<close>: the spread comes after
  the attribute \<open>atoms\<close>, and \<open>atoms\<close> is not among the props the Provider takes out
  (\<open>store\<close>, \<open>scope\<close>, \<open>children\<close>, \<open>resetKey\<close>), so for a store with a base field
  named \<open>atoms\<close> the prop that carries this field's value replaces the record.

  For the store above, the Provider is mounted with the props
  \<open>atoms={{ count: extra }}\<close> (the object at address 25, holding the extension's atom) and
  \<open>count={5}\<close>, below the empty registry at address 26.  The value 5 is hydrated into the
  cell of the extension's atom \<open>extra\<close>, which is not one of the Provider's atoms, and the
  cell of the base field \<open>count\<close> holds nothing.  Mounted with \<open>count={5}\<close> alone, the
  same Provider seeds the base field and leaves the extension's atom alone.
\<close>

theorem provider_atoms_prop_replaces_record:
  "(case createAtomStore [(''count'', Num 1), (''atoms'', Ref 0)] ''app''
           (Some (\<lambda>atoms h. (let (a, h') = jotai_atom h (Num 0) Undefined
                               in ([(''extra'', a)], h'))))
           \<lparr>objs = [Obj False []], console = []\<rparr> of
      Inl e \<Rightarrow> False
    | Inr (st, w') \<Rightarrow>
        provider_atoms st = [(''count'', Ref 10), (''atoms'', Ref 20)]
      \<and> map_of (store_atoms st) ''extra'' = Some (Ref 24)
      \<and> Ref 24 \<notin> snd ` set (provider_atoms st)
      \<and> (case provider_update 1 ''app'' (provider_atoms st)
                 [''atoms'' \<mapsto> Ref 25, ''count'' \<mapsto> Num 5] 26 None
                 (objs w' @ [Obj False [(''count'', Ref 24)], MapObj Map.empty]) of
            Some (Inr (f, h)) \<Rightarrow>
                store_cells h (storeState f) (Ref 24) = Some (Num 5)
              \<and> Ref 24 \<in> store_hydrated h (storeState f)
              \<and> store_cells h (storeState f) (Ref 10) = None
          | _ \<Rightarrow> False)
      \<and> (case provider_update 1 ''app'' (provider_atoms st)
                 [''count'' \<mapsto> Num 5] 26 None
                 (objs w' @ [Obj False [(''count'', Ref 24)], MapObj Map.empty]) of
            Some (Inr (f, h)) \<Rightarrow>
                store_cells h (storeState f) (Ref 10) = Some (Num 5)
              \<and> store_cells h (storeState f) (Ref 24) = None
          | _ \<Rightarrow> False))"
  unfolding createAtomStore_count_atoms_extra
  by (simp add: provider_render_def createStore_def alloc_def provider_context_def
      new_Map_def map_set_def entries_of_def HydrateAtoms_def object_entries_def
      useHydrateStore_def store_set_def mark_hydrated_def store_hydrated_def store_cells_def
      heap_at_def field_def object_prototype_def spread_def props_of_def restrict_map_def
      map_add_def Let_def gfqs_str gfqs_provider)

section \<open>The scope shorthand on the accessor surface\<close>

lemma index_chars_dark:
  "index_chars 0 ''dark'' = [(''0'', Str ''d''), (''1'', Str ''a''), (''2'', Str ''r''), (''3'', Str ''k'')]"
  by (simp add: digit_def)

text \<open>
  Claim C10 says that every accessor treats a bare string \<open>s\<close> as \<open>{ scope: s }\<close>.  The
  per-field members of \<open>get\<close>, \<open>set\<close> and \<open>use\<close> do not: \<open>withDefaultOptions\<close>
  spreads its argument into an object literal before \<open>convertScopeShorthand\<close> sees it,
  and spreading a string gives its indexed characters, no \<open>scope\<close>.  For the store
  \<open>app\<close> under a snapshot with \<open>app:dark\<close> (store 2) and \<open>app:provider\<close> (store 3):
  \<open>get.count('dark')\<close> reads store 3 where \<open>get.count({ scope: 'dark' })\<close> reads store
  2, and so do \<open>set.count('dark')\<close> and \<open>use.count('dark')\<close>; the member \<open>store\<close>,
  which converts its argument, resolves \<open>'dark'\<close> to store 2.
\<close>

theorem per_field_accessor_ignores_bare_scope:
  "api_get \<lparr>store_name = ''app'', store_atoms = [(''count'', Ref 0)],
             store_atomIsWritable = [(''count'', True)], provider_atoms = [(''count'', Ref 0)],
             get_keys = [''count''], set_keys = [''count'']\<rparr>
      Undefined 1 NoArg ''count'' (ScopeArg ''dark'')
      \<lparr>objs = [Obj False [], MapObj [''app:dark'' \<mapsto> 2, ''app:provider'' \<mapsto> 3],
               StoreObj Map.empty {}, StoreObj Map.empty {}], console = []\<rparr>
    = Some (UseAtomValue (Ref 0) (Ref 3) Undefined,
            \<lparr>objs = [Obj False [], MapObj [''app:dark'' \<mapsto> 2, ''app:provider'' \<mapsto> 3],
               StoreObj Map.empty {}, StoreObj Map.empty {}], console = []\<rparr>)
   \<and> api_get \<lparr>store_name = ''app'', store_atoms = [(''count'', Ref 0)],
             store_atomIsWritable = [(''count'', True)], provider_atoms = [(''count'', Ref 0)],
             get_keys = [''count''], set_keys = [''count'']\<rparr>
      Undefined 1 NoArg ''count'' (OptionsArg [''scope'' \<mapsto> Str ''dark''])
      \<lparr>objs = [Obj False [], MapObj [''app:dark'' \<mapsto> 2, ''app:provider'' \<mapsto> 3],
               StoreObj Map.empty {}, StoreObj Map.empty {}], console = []\<rparr>
    = Some (UseAtomValue (Ref 0) (Ref 2) Undefined,
            \<lparr>objs = [Obj False [], MapObj [''app:dark'' \<mapsto> 2, ''app:provider'' \<mapsto> 3],
               StoreObj Map.empty {}, StoreObj Map.empty {}], console = []\<rparr>)
   \<and> api_set \<lparr>store_name = ''app'', store_atoms = [(''count'', Ref 0)],
             store_atomIsWritable = [(''count'', True)], provider_atoms = [(''count'', Ref 0)],
             get_keys = [''count''], set_keys = [''count'']\<rparr>
      1 NoArg ''count'' (ScopeArg ''dark'')
      \<lparr>objs = [Obj False [], MapObj [''app:dark'' \<mapsto> 2, ''app:provider'' \<mapsto> 3],
               StoreObj Map.empty {}, StoreObj Map.empty {}], console = []\<rparr>
    = Some (UseSetAtom (Ref 0) (Ref 3),
            \<lparr>objs = [Obj False [], MapObj [''app:dark'' \<mapsto> 2, ''app:provider'' \<mapsto> 3],
               StoreObj Map.empty {}, StoreObj Map.empty {}], console = []\<rparr>)
   \<and> api_use \<lparr>store_name = ''app'', store_atoms = [(''count'', Ref 0)],
             store_atomIsWritable = [(''count'', True)], provider_atoms = [(''count'', Ref 0)],
             get_keys = [''count''], set_keys = [''count'']\<rparr>
      Undefined 1 NoArg ''count'' (ScopeArg ''dark'')
      \<lparr>objs = [Obj False [], MapObj [''app:dark'' \<mapsto> 2, ''app:provider'' \<mapsto> 3],
               StoreObj Map.empty {}, StoreObj Map.empty {}], console = []\<rparr>
    = Some (UseAtom (Ref 0) (Ref 3) Undefined,
            \<lparr>objs = [Obj False [], MapObj [''app:dark'' \<mapsto> 2, ''app:provider'' \<mapsto> 3],
               StoreObj Map.empty {}, StoreObj Map.empty {}], console = []\<rparr>)
   \<and> api_store \<lparr>store_name = ''app'', store_atoms = [(''count'', Ref 0)],
             store_atomIsWritable = [(''count'', True)], provider_atoms = [(''count'', Ref 0)],
             get_keys = [''count''], set_keys = [''count'']\<rparr>
      1 NoArg (ScopeArg ''dark'')
      \<lparr>objs = [Obj False [], MapObj [''app:dark'' \<mapsto> 2, ''app:provider'' \<mapsto> 3],
               StoreObj Map.empty {}, StoreObj Map.empty {}], console = []\<rparr>
    = (Ref 2,
       \<lparr>objs = [Obj False [], MapObj [''app:dark'' \<mapsto> 2, ''app:provider'' \<mapsto> 3],
               StoreObj Map.empty {}, StoreObj Map.empty {}], console = []\<rparr>)"
  by (simp add: api_get_def api_set_def api_use_def api_store_def merged_options_def
      withDefaultOptions_def convertScopeShorthand_def
      spread_arg_def index_chars_dark useAtomValueWithStore_def useSetAtomWithStore_def
      useAtomWithStore_def useStore_def useAtomStore_def field_def object_prototype_def
      map_add_def nullish_or_def
      map_get_def entries_of_def heap_at_def gfqs_str gfqs_provider PROVIDER_SCOPE_def Let_def)

text \<open>
  Where \<open>convertScopeShorthand\<close> is applied to the argument itself, the shorthand holds
  for every string: in \<open>useStore\<close>, in the members \<open>store\<close>, \<open>get.atom\<close>,
  \<open>set.atom\<close> and \<open>use.atom\<close>, and for the default options of \<open>useStoreApi\<close> on
  every member.
\<close>

theorem scope_shorthand_converted:
  "convertScopeShorthand (ScopeArg s) = convertScopeShorthand (OptionsArg [''scope'' \<mapsto> Str s])
   \<and> useStore name ctx (ScopeArg s) w = useStore name ctx (OptionsArg [''scope'' \<mapsto> Str s]) w
   \<and> api_store st ctx defaultOptions (ScopeArg s) w
       = api_store st ctx defaultOptions (OptionsArg [''scope'' \<mapsto> Str s]) w
   \<and> api_get_atom st delayRoot ctx defaultOptions atomConfig (ScopeArg s) w
       = api_get_atom st delayRoot ctx defaultOptions atomConfig (OptionsArg [''scope'' \<mapsto> Str s]) w
   \<and> api_set_atom st ctx defaultOptions atomConfig (ScopeArg s) w
       = api_set_atom st ctx defaultOptions atomConfig (OptionsArg [''scope'' \<mapsto> Str s]) w
   \<and> api_use_atom st delayRoot ctx defaultOptions atomConfig (ScopeArg s) w
       = api_use_atom st delayRoot ctx defaultOptions atomConfig (OptionsArg [''scope'' \<mapsto> Str s]) w
   \<and> api_get st delayRoot ctx (ScopeArg s) key options w
       = api_get st delayRoot ctx (OptionsArg [''scope'' \<mapsto> Str s]) key options w
   \<and> api_set st ctx (ScopeArg s) key options w
       = api_set st ctx (OptionsArg [''scope'' \<mapsto> Str s]) key options w
   \<and> api_use st delayRoot ctx (ScopeArg s) key options w
       = api_use st delayRoot ctx (OptionsArg [''scope'' \<mapsto> Str s]) key options w"
  by (simp add: convertScopeShorthand_def useStore_def api_store_def api_get_atom_def
      api_set_atom_def api_use_atom_def api_get_def api_set_def api_use_def merged_options_def)

section \<open>Resetting a Provider\<close>

lemma heap_at_map_set:
  "heap_at (map_set h m k v) x =
     (if x = m then (case heap_at h m of
                       Some (MapObj es) \<Rightarrow> Some (MapObj (es(k \<mapsto> v)))
                     | other \<Rightarrow> other)
      else heap_at h x)"
  by (cases "heap_at h m")
     (auto simp: map_set_def heap_at_update heap_at_def split: jsobj.splits if_splits)

lemma heap_at_length: "heap_at h (length h) = None"
  by (simp add: heap_at_def)

lemma length_map_set [simp]: "length (map_set h m k v) = length h"
  by (simp add: map_set_def split: option.splits jsobj.splits)

lemma is_store_map_set [simp]: "is_store (map_set h m k v) s = is_store h s"
  by (simp add: is_store_def heap_at_map_set split: option.splits jsobj.splits)

lemma store_cells_map_set [simp]: "store_cells (map_set h m k v) s = store_cells h s"
  by (simp add: store_cells_def heap_at_map_set split: option.splits jsobj.splits)

lemma store_hydrated_map_set [simp]: "store_hydrated (map_set h m k v) s = store_hydrated h s"
  by (simp add: store_hydrated_def heap_at_map_set split: option.splits jsobj.splits)

lemma props_of_map_set [simp]: "props_of (map_set h m k v) x = props_of h x"
  by (simp add: props_of_def heap_at_map_set split: jsval.splits option.splits jsobj.splits)

lemma is_store_append_map [simp]: "is_store (h @ [MapObj es]) s = is_store h s"
  by (simp add: is_store_def heap_at_append heap_at_length)

lemma store_cells_append_map [simp]: "store_cells (h @ [MapObj es]) s = store_cells h s"
  by (simp add: store_cells_def heap_at_append heap_at_length)

lemma store_hydrated_append_map [simp]: "store_hydrated (h @ [MapObj es]) s = store_hydrated h s"
  by (simp add: store_hydrated_def heap_at_append heap_at_length)

lemma props_of_append_map [simp]: "props_of (h @ [MapObj es]) x = props_of h x"
  by (simp add: props_of_def heap_at_append heap_at_length split: jsval.splits)

lemma is_store_append_store: "is_store (h @ [StoreObj cs hy]) s = (s = length h \<or> is_store h s)"
  by (simp add: is_store_def heap_at_append heap_at_length)

lemma store_cells_append_store:
  "store_cells (h @ [StoreObj cs hy]) s = (if s = length h then cs else store_cells h s)"
  by (simp add: store_cells_def heap_at_append)

lemma store_hydrated_append_store:
  "store_hydrated (h @ [StoreObj cs hy]) s = (if s = length h then hy else store_hydrated h s)"
  by (simp add: store_hydrated_def heap_at_append)

lemma props_of_append_store [simp]: "props_of (h @ [StoreObj cs hy]) x = props_of h x"
  by (simp add: props_of_def heap_at_append heap_at_length split: jsval.splits)

lemma is_store_length: "is_store h s \<Longrightarrow> s < length h"
  by (simp add: is_store_def heap_at_def split: if_splits)

lemma provider_context_heap:
  "length (snd (provider_context name prev scope store h)) = Suc (length h)
   \<and> is_store (snd (provider_context name prev scope store h)) s = is_store h s
   \<and> store_cells (snd (provider_context name prev scope store h)) s = store_cells h s
   \<and> store_hydrated (snd (provider_context name prev scope store h)) s = store_hydrated h s
   \<and> props_of (snd (provider_context name prev scope store h)) x = props_of h x"
  by (simp add: provider_context_def new_Map_def alloc_def Let_def)

lemma spread_props_of: "(\<And>x. props_of h' x = props_of h x) \<Longrightarrow> spread h' v = spread h v"
  by (simp add: spread_def split: jsval.splits)

text \<open>Hydration and sync write to stores only: every registry Map is as it was.\<close>

lemma entries_of_store_set [simp]: "entries_of (store_set h s a v) m = entries_of h m"
  by (simp add: entries_of_def heap_at_store_set split: option.splits jsobj.splits)

lemma entries_of_mark_hydrated [simp]: "entries_of (mark_hydrated h s a) m = entries_of h m"
  by (simp add: entries_of_def heap_at_mark_hydrated split: option.splits jsobj.splits)

lemma useHydrateAtoms_entries [simp]: "entries_of (useHydrateAtoms vs s h) m = entries_of h m"
proof (induction vs arbitrary: h)
  case Nil
  show ?case by simp
next
  case (Cons y vs)
  obtain a v where y: "y = (a, v)" by (cases y)
  show ?case
    unfolding y by (simp add: Cons.IH)
qed

lemma useSyncStore_entries [simp]:
  "entries_of (snd (useSyncStore atoms values s deps h)) m = entries_of h m"
proof (induction atoms arbitrary: deps h)
  case Nil
  show ?case by simp
next
  case (Cons y atoms)
  obtain k a where y: "y = (k, a)" by (cases y)
  show ?case
    unfolding y useSyncStore_Cons by (simp add: Cons.IH)
qed

lemma HydrateAtoms_heap:
  assumes "HydrateAtoms atoms p s deps h = Inr r"
  shows "length (snd r) = length h
       \<and> is_store (snd r) s' = is_store h s'
       \<and> props_of (snd r) x = props_of h x
       \<and> entries_of (snd r) m = entries_of h m"
  using assms
  by (auto simp: HydrateAtoms_def Let_def useHydrateStore_def split: option.splits sum.splits)

lemma HydrateAtoms_fresh:
  assumes "p ''atoms'' = None"
      and "HydrateAtoms atoms p s deps h = Inr r"
      and "is_store h s"
      and "store_cells h s = Map.empty"
      and "store_hydrated h s = {}"
      and "distinct (map fst atoms)"
      and "distinct (map snd atoms)"
      and "(key, atom) \<in> set atoms"
      and "object_prototype key = None"
  shows "store_cells (snd r) s atom =
           (case (spread h (field p ''initialValues'')
                    ++ p |` (- {''initialValues'', ''children'', ''store'', ''atoms''})) key of
              Some v \<Rightarrow> (if v = Undefined then None else Some v)
            | None \<Rightarrow> None)"
proof -
  define props where "props = p |` (- {''initialValues'', ''children'', ''store'', ''atoms''})"
  define hv where "hv = spread h (field p ''initialValues'') ++ props"
  define h1 where "h1 = useHydrateStore atoms hv s h"
  have run: "r = useSyncStore atoms props s deps h1"
    using assms(2) unfolding HydrateAtoms_record [where p = p, OF assms(1)]
    by (simp add: props_def hv_def h1_def)
  have nh: "atom \<notin> store_hydrated h s"
    using assms(5) by simp
  note seeds = useHydrateStore_cell(1) [OF assms(3) assms(7) assms(8) nh, of hv]
  have c1: "store_cells h1 s atom = (if field hv key \<noteq> Undefined then Some (field hv key) else None)"
    using seeds assms(4) by (simp add: h1_def)
  have st1: "is_store h1 s"
    using assms(3) by (simp add: h1_def useHydrateStore_def)
  note sync = useSyncStore_field [OF st1 assms(6) assms(7) assms(8), of props deps]
  note own_hv = field_own [OF assms(9), of hv]
  note own_props = field_own [OF assms(9), of props]
  have pv: "field props key \<noteq> Undefined \<Longrightarrow> field hv key = field props key"
    unfolding own_hv own_props by (auto simp: hv_def map_add_def split: option.splits)
  have "store_cells (snd (useSyncStore atoms props s deps h1)) s atom =
          (if field hv key \<noteq> Undefined then Some (field hv key) else None)"
    using sync c1 pv by auto
  also have "\<dots> = (case hv key of Some v \<Rightarrow> (if v = Undefined then None else Some v) | None \<Rightarrow> None)"
    unfolding own_hv by (simp split: option.splits)
  finally show ?thesis
    unfolding run hv_def props_def .
qed

lemma HydrateAtoms_fresh_other:
  assumes "p ''atoms'' = None"
      and "HydrateAtoms atoms p s deps h = Inr r"
      and "store_cells h s = Map.empty"
      and "c \<notin> snd ` set atoms"
  shows "store_cells (snd r) s c = None"
  using HydrateAtoms_frame [OF assms(1,2,4), of s] assms(3) by simp

text \<open>
  The render of a mounted Provider, with the pairs taken apart, when \<open>HydrateAtoms\<close>
  does not throw.
\<close>

lemma provider_render_Some:
  assumes "HydrateAtoms atoms (p |` (- {''store'', ''scope'', ''children'', ''resetKey''}))
             (storeState f) (hydrate_deps f)
             (snd (if memo_deps f = (prev, field p ''scope'', storeState f)
                   then (storeContext f, h @ [StoreObj Map.empty {}])
                   else provider_context name prev (field p ''scope'') (storeState f)
                          (h @ [StoreObj Map.empty {}])))
           = Inr hy"
  shows "provider_render name atoms p prev (Some f) h =
     Inr (let m = (if memo_deps f = (prev, field p ''scope'', storeState f)
                   then (storeContext f, h @ [StoreObj Map.empty {}])
                   else provider_context name prev (field p ''scope'') (storeState f)
                          (h @ [StoreObj Map.empty {}]));
              reset = (resetKey_deps f \<noteq> field p ''resetKey'' \<and> truthy (field p ''resetKey''))
          in (reset,
              \<lparr>storeState = (if reset then length (snd hy) else storeState f),
               resetKey_deps = field p ''resetKey'',
               memo_deps = (prev, field p ''scope'', storeState f),
               storeContext = fst m,
               hydrate_deps = fst hy\<rparr>,
              (if reset then snd hy @ [StoreObj Map.empty {}] else snd hy)))"
proof -
  define m where "m = (if memo_deps f = (prev, field p ''scope'', storeState f)
                   then (storeContext f, h @ [StoreObj Map.empty {}])
                   else provider_context name prev (field p ''scope'') (storeState f)
                          (h @ [StoreObj Map.empty {}]))"
  have hy: "HydrateAtoms atoms (p |` (- {''store'', ''scope'', ''children'', ''resetKey''}))
             (storeState f) (hydrate_deps f) (snd m) = Inr hy"
    using assms unfolding m_def .
  have "provider_render name atoms p prev (Some f) h =
      (case HydrateAtoms atoms (p |` (- {''store'', ''scope'', ''children'', ''resetKey''}))
              (storeState f) (hydrate_deps f) (snd m) of
         Inl e \<Rightarrow> Inl e
       | Inr (sd, h3) \<Rightarrow>
           (let reset = (resetKey_deps f \<noteq> field p ''resetKey'' \<and> truthy (field p ''resetKey''))
            in Inr (reset,
                    \<lparr>storeState = (if reset then length h3 else storeState f),
                     resetKey_deps = field p ''resetKey'',
                     memo_deps = (prev, field p ''scope'', storeState f),
                     storeContext = fst m,
                     hydrate_deps = sd\<rparr>,
                    (if reset then h3 @ [StoreObj Map.empty {}] else h3))))"
    unfolding m_def
    by (simp add: provider_render_def createStore_def alloc_def Let_def split_beta
        split: sum.splits)
  also have "\<dots> = Inr (let reset = (resetKey_deps f \<noteq> field p ''resetKey'' \<and> truthy (field p ''resetKey''))
          in (reset,
              \<lparr>storeState = (if reset then length (snd hy) else storeState f),
               resetKey_deps = field p ''resetKey'',
               memo_deps = (prev, field p ''scope'', storeState f),
               storeContext = fst m,
               hydrate_deps = fst hy\<rparr>,
              (if reset then snd hy @ [StoreObj Map.empty {}] else snd hy)))"
    unfolding hy by (simp add: Let_def split_beta)
  finally show ?thesis
    unfolding m_def Let_def .
qed

lemma memo_heap:
  "length h \<le> length (snd (if c then (x, h) else provider_context name prev scope store h))
   \<and> is_store (snd (if c then (x, h) else provider_context name prev scope store h)) s
       = is_store h s
   \<and> store_cells (snd (if c then (x, h) else provider_context name prev scope store h)) s
       = store_cells h s
   \<and> store_hydrated (snd (if c then (x, h) else provider_context name prev scope store h)) s
       = store_hydrated h s
   \<and> props_of (snd (if c then (x, h) else provider_context name prev scope store h)) v
       = props_of h v"
  by (simp add: provider_context_heap)

text \<open>
  A render of a mounted Provider (given no prop named \<open>atoms\<close>) whose \<open>resetKey\<close> is
  falsy, or is the one of the last commit, ends the update and keeps the store.
\<close>

lemma provider_keeps_store:
  assumes "\<not> truthy (field props ''resetKey'') \<or> resetKey_deps f = field props ''resetKey''"
      and "props ''atoms'' = None"
  shows "\<exists>f' h'. provider_update 1 name atoms props prev (Some f) h = Some (Inr (f', h'))
               \<and> storeState f' = storeState f"
proof -
  define rest where "rest = props |` (- {''store'', ''scope'', ''children'', ''resetKey''})"
  define m where "m = (if memo_deps f = (prev, field props ''scope'', storeState f)
                   then (storeContext f, h @ [StoreObj Map.empty {}])
                   else provider_context name prev (field props ''scope'') (storeState f)
                          (h @ [StoreObj Map.empty {}]))"
  have ra: "rest ''atoms'' = None"
    using assms(2) by (simp add: rest_def restrict_map_def)
  define hy where "hy = projr (HydrateAtoms atoms rest (storeState f) (hydrate_deps f) (snd m))"
  have hy: "HydrateAtoms atoms rest (storeState f) (hydrate_deps f) (snd m) = Inr hy"
    unfolding hy_def HydrateAtoms_record [where p = rest, OF ra] by simp
  define f1 where "f1 = \<lparr>storeState = storeState f, resetKey_deps = field props ''resetKey'',
      memo_deps = (prev, field props ''scope'', storeState f), storeContext = fst m,
      hydrate_deps = fst hy\<rparr>"
  have "provider_render name atoms props prev (Some f) h = Inr (False, f1, snd hy)"
    using assms(1)
      provider_render_Some [of atoms props f prev h name hy, OF hy [unfolded rest_def m_def]]
    by (auto simp: Let_def m_def f1_def)
  then have "provider_update 1 name atoms props prev (Some f) h = Some (Inr (f1, snd hy))"
    by simp
  moreover have "storeState f1 = storeState f"
    by (simp add: f1_def)
  ultimately show ?thesis by blast
qed

text \<open>
  Claim C4, as stated, has the Provider replace its store whenever \<open>resetKey\<close> changes
  identity.  The effect does run on every change, but it replaces the store only
  \<open>if (resetKey)\<close>.  A Provider of \<open>app\<close> with the field \<open>count\<close> is mounted with
  \<open>resetKey = 1\<close> and \<open>count = 5\<close>, and the cell is then set to 7.  When the next
  render passes no \<open>resetKey\<close> (the key changed from 1 to \<open>undefined\<close>), the store is
  the same one and the cell still holds 7; and so it is when the next render passes
  \<open>resetKey = 0\<close>.
\<close>

theorem provider_reset_counterexample:
  "(case provider_update 2 ''app'' [(''count'', Ref 0)]
           [''resetKey'' \<mapsto> Num 1, ''count'' \<mapsto> Num 5] 1 None
           [Obj False [], MapObj Map.empty] of
      Some (Inr (f1, h1)) \<Rightarrow>
        (case provider_update 2 ''app'' [(''count'', Ref 0)]
                [''count'' \<mapsto> Num 5] 1 (Some f1)
                (store_set h1 (storeState f1) (Ref 0) (Num 7)) of
           Some (Inr (f2, h2)) \<Rightarrow>
             resetKey_deps f1 = Num 1
           \<and> resetKey_deps f2 = Undefined
           \<and> storeState f2 = storeState f1
           \<and> store_cells h2 (storeState f2) (Ref 0) = Some (Num 7)
         | _ \<Rightarrow> False)
      \<and> (case provider_update 2 ''app'' [(''count'', Ref 0)]
                [''resetKey'' \<mapsto> Num 0, ''count'' \<mapsto> Num 5] 1 (Some f1)
                (store_set h1 (storeState f1) (Ref 0) (Num 7)) of
           Some (Inr (f2, h2)) \<Rightarrow>
             resetKey_deps f1 = Num 1
           \<and> resetKey_deps f2 = Num 0
           \<and> storeState f2 = storeState f1
           \<and> store_cells h2 (storeState f2) (Ref 0) = Some (Num 7)
         | _ \<Rightarrow> False)
    | _ \<Rightarrow> False)"
  by (simp add: numeral_2_eq_2 provider_render_def createStore_def alloc_def provider_context_def
      new_Map_def map_set_def entries_of_def HydrateAtoms_def useHydrateStore_def
      store_set_def mark_hydrated_def store_hydrated_def store_cells_def heap_at_def field_def
      object_prototype_def spread_def props_of_def restrict_map_def map_add_def Let_def
      gfqs_str gfqs_provider)

text \<open>
  Claim C4, amended: for every mounted Provider that is given no prop named \<open>atoms\<close>,
  whenever \<open>resetKey\<close> changes identity between renders to a truthy value, the update
  ends (after two renders) with a store that did not exist before, and the registry
  snapshot the Provider hands down holds that store under \<open>storeName:provider\<close>, and
  under \<open>storeName:scope\<close> when its scope is truthy.  In that store every field of the
  Provider's atoms (distinct keys, distinct cells) whose name is not the name of a member
  of \<open>Object.prototype\<close> holds its entry of \<open>{ ...initialValues, ...props }\<close> for the
  current props when that entry is defined and holds nothing otherwise (the field reads its
  declared initial value), and no atom outside the Provider's atoms holds anything: no
  write made before the reset is in it.
\<close>

theorem provider_reset:
  assumes "resetKey_deps f \<noteq> field props ''resetKey''"
      and "truthy (field props ''resetKey'')"
      and "props ''atoms'' = None"
      and "is_store h (storeState f)"
      and "distinct (map fst atoms)"
      and "distinct (map snd atoms)"
  shows "\<exists>f' h'. provider_update 2 name atoms props prev (Some f) h = Some (Inr (f', h'))
       \<and> length h \<le> storeState f'
       \<and> storeState f' \<noteq> storeState f
       \<and> is_store h' (storeState f')
       \<and> resetKey_deps f' = field props ''resetKey''
       \<and> entries_of h' (storeContext f') (getFullyQualifiedScope name PROVIDER_SCOPE)
           = Some (storeState f')
       \<and> (truthy (field props ''scope'') \<longrightarrow>
            entries_of h' (storeContext f') (getFullyQualifiedScope name (field props ''scope''))
              = Some (storeState f'))
       \<and> (\<forall>key atom. (key, atom) \<in> set atoms \<and> object_prototype key = None \<longrightarrow>
             store_cells h' (storeState f') atom =
               (case (spread h (field props ''initialValues'')
                        ++ props |` (- {''store'', ''scope'', ''children'', ''resetKey'',
                                        ''initialValues'', ''atoms''})) key of
                  Some v \<Rightarrow> (if v = Undefined then None else Some v)
                | None \<Rightarrow> None))
       \<and> (\<forall>c. c \<notin> snd ` set atoms \<longrightarrow> store_cells h' (storeState f') c = None)"
proof -
  define rest where "rest = props |` (- {''store'', ''scope'', ''children'', ''resetKey''})"
  define rk where "rk = field props ''resetKey''"
  define sc where "sc = field props ''scope''"
  define h1 where "h1 = h @ [StoreObj Map.empty {}]"
  define m where "m = (if memo_deps f = (prev, sc, storeState f) then (storeContext f, h1)
               else provider_context name prev sc (storeState f) h1)"
  have ra: "rest ''atoms'' = None"
    using assms(3) by (simp add: rest_def restrict_map_def)
  define hy where "hy = projr (HydrateAtoms atoms rest (storeState f) (hydrate_deps f) (snd m))"
  have hy: "HydrateAtoms atoms rest (storeState f) (hydrate_deps f) (snd m) = Inr hy"
    unfolding hy_def HydrateAtoms_record [where p = rest, OF ra] by simp
  define s1 where "s1 = length (snd hy)"
  define h4 where "h4 = snd hy @ [StoreObj Map.empty {}]"
  define f1 where "f1 = \<lparr>storeState = s1, resetKey_deps = rk,
      memo_deps = (prev, sc, storeState f), storeContext = fst m, hydrate_deps = fst hy\<rparr>"
  have pass1: "provider_render name atoms props prev (Some f) h = Inr (True, f1, h4)"
    using assms(1,2)
      provider_render_Some [of atoms props f prev h name hy,
        OF hy [unfolded rest_def m_def sc_def h1_def]]
    by (simp add: Let_def rest_def rk_def sc_def h1_def m_def s1_def h4_def f1_def)
  define h5 where "h5 = h4 @ [StoreObj Map.empty {}]"
  define m' where "m' = (if memo_deps f1 = (prev, sc, s1) then (storeContext f1, h5)
               else provider_context name prev sc s1 h5)"
  define hy' where "hy' = projr (HydrateAtoms atoms rest s1 (hydrate_deps f1) (snd m'))"
  have hy': "HydrateAtoms atoms rest s1 (hydrate_deps f1) (snd m') = Inr hy'"
    unfolding hy'_def HydrateAtoms_record [where p = rest, OF ra] by simp
  define f2 where "f2 = \<lparr>storeState = s1, resetKey_deps = rk,
      memo_deps = (prev, sc, s1), storeContext = fst m', hydrate_deps = fst hy'\<rparr>"
  have f1_sel: "storeState f1 = s1" "resetKey_deps f1 = rk"
    by (simp_all add: f1_def)
  have hy'': "HydrateAtoms atoms (props |` (- {''store'', ''scope'', ''children'', ''resetKey''}))
             (storeState f1) (hydrate_deps f1)
             (snd (if memo_deps f1 = (prev, field props ''scope'', storeState f1)
                   then (storeContext f1, h4 @ [StoreObj Map.empty {}])
                   else provider_context name prev (field props ''scope'') (storeState f1)
                          (h4 @ [StoreObj Map.empty {}])))
           = Inr hy'"
    using hy' unfolding rest_def m'_def sc_def h5_def f1_sel .
  have pass2: "provider_render name atoms props prev (Some f1) h4 = Inr (False, f2, snd hy')"
    using provider_render_Some [of atoms props f1 prev h4 name hy', OF hy'']
    by (simp add: Let_def f1_sel rk_def sc_def h5_def m'_def f2_def)
  have run: "provider_update 2 name atoms props prev (Some f) h = Some (Inr (f2, snd hy'))"
    by (simp add: numeral_2_eq_2 pass1 pass2)
  \<comment> \<open>the heap up to the second hydration\<close>
  have len_m: "length h1 \<le> length (snd m)"
    unfolding m_def using memo_heap by blast
  have len_hy: "length (snd hy) = length (snd m)"
    using HydrateAtoms_heap [OF hy] by blast
  have fresh: "length h \<le> s1"
    using len_m len_hy by (simp add: s1_def h1_def)
  have old: "storeState f < length h"
    using assms(4) by (rule is_store_length)
  have differs: "s1 \<noteq> storeState f"
    using fresh old by simp
  have props_m: "props_of (snd m) x = props_of h x" for x
    unfolding m_def using memo_heap [of h1] by (simp add: h1_def)
  have props_hy: "props_of (snd hy) x = props_of h x" for x
    using HydrateAtoms_heap [OF hy] props_m by simp
  have props_h4: "props_of h4 x = props_of h x" for x
    unfolding h4_def by (simp add: props_hy)
  have props_h5: "props_of h5 x = props_of h x" for x
    unfolding h5_def by (simp add: props_h4)
  have props_m': "props_of (snd m') x = props_of h x" for x
    unfolding m'_def using memo_heap [of h5] by (simp add: props_h5)
  have st_h4: "is_store h4 s1" "store_cells h4 s1 = Map.empty" "store_hydrated h4 s1 = {}"
    unfolding h4_def s1_def
    by (simp_all add: is_store_append_store store_cells_append_store store_hydrated_append_store)
  have len_h4: "length h4 = Suc s1"
    by (simp add: h4_def s1_def)
  have st_h5: "is_store h5 s1" "store_cells h5 s1 = Map.empty" "store_hydrated h5 s1 = {}"
    unfolding h5_def
    by (simp_all add: is_store_append_store store_cells_append_store store_hydrated_append_store
        len_h4 st_h4)
  have st_m': "is_store (snd m') s1" "store_cells (snd m') s1 = Map.empty"
    "store_hydrated (snd m') s1 = {}"
    unfolding m'_def using memo_heap [of h5] st_h5 by simp_all
  have sp: "spread (snd m') v = spread h v" for v
    by (rule spread_props_of) (rule props_m')
  have st_final: "is_store (snd hy') s1"
    using HydrateAtoms_heap [OF hy'] st_m'(1) by simp
  \<comment> \<open>the registry of the second render\<close>
  have memo: "m' = provider_context name prev sc s1 h5"
    unfolding m'_def using differs by (simp add: f1_def)
  then have "provider_context name prev sc s1 h5 = (fst m', snd m')"
    by simp
  note reg = provider_context_entries [OF this]
  have reg_final: "entries_of (snd hy') (fst m') = entries_of (snd m') (fst m')"
    using HydrateAtoms_heap [OF hy'] by blast
  have reg_provider:
    "entries_of (snd hy') (fst m') (getFullyQualifiedScope name PROVIDER_SCOPE) = Some s1"
    unfolding reg_final reg by simp
  have reg_scope: "truthy sc \<longrightarrow>
      entries_of (snd hy') (fst m') (getFullyQualifiedScope name sc) = Some s1"
    unfolding reg_final reg by simp
  \<comment> \<open>the cells of the fresh store\<close>
  have drop: "rest |` (- {''initialValues'', ''children'', ''store'', ''atoms''})
      = props |` (- {''store'', ''scope'', ''children'', ''resetKey'', ''initialValues'', ''atoms''})"
    by (auto simp: rest_def restrict_map_def fun_eq_iff)
  have iv: "field rest ''initialValues'' = field props ''initialValues''"
    by (simp add: rest_def field_def restrict_map_def)
  have cells: "\<forall>key atom. (key, atom) \<in> set atoms \<and> object_prototype key = None \<longrightarrow>
             store_cells (snd hy') s1 atom =
               (case (spread h (field props ''initialValues'')
                        ++ props |` (- {''store'', ''scope'', ''children'', ''resetKey'',
                                        ''initialValues'', ''atoms''})) key of
                  Some v \<Rightarrow> (if v = Undefined then None else Some v)
                | None \<Rightarrow> None)"
  proof (intro allI impI)
    fix key atom
    assume a: "(key, atom) \<in> set atoms \<and> object_prototype key = None"
    then have mem: "(key, atom) \<in> set atoms" and pk: "object_prototype key = None"
      by simp_all
    from HydrateAtoms_fresh [OF ra hy' st_m' assms(5,6) mem pk]
    show "store_cells (snd hy') s1 atom =
               (case (spread h (field props ''initialValues'')
                        ++ props |` (- {''store'', ''scope'', ''children'', ''resetKey'',
                                        ''initialValues'', ''atoms''})) key of
                  Some v \<Rightarrow> (if v = Undefined then None else Some v)
                | None \<Rightarrow> None)"
      unfolding sp iv drop .
  qed
  have others: "\<forall>c. c \<notin> snd ` set atoms \<longrightarrow> store_cells (snd hy') s1 c = None"
    using HydrateAtoms_fresh_other [OF ra hy' st_m'(2)] by blast
  have sel: "storeState f2 = s1" "resetKey_deps f2 = field props ''resetKey''"
    "storeContext f2 = fst m'"
    by (simp_all add: f2_def rk_def)
  show ?thesis
    unfolding sc_def [symmetric]
    by (rule exI [of _ f2], rule exI [of _ "snd hy'"])
       (simp add: run sel fresh differs st_final reg_provider reg_scope cells others)
qed

text \<open>
  A mounted Provider whose store (address 2) holds 7 for \<open>count\<close>, last committed with
  \<open>resetKey = 1\<close>, rendered with \<open>resetKey = 2\<close> and \<open>count = 6\<close>: the update ends
  with a store at a new address, registered under \<open>app:provider\<close>, in which \<open>count\<close>
  holds 6.
\<close>

theorem provider_reset_witness:
  "\<exists>f' h'.
     provider_update 2 ''app'' [(''count'', Ref 0)] [''resetKey'' \<mapsto> Num 2, ''count'' \<mapsto> Num 6] 1
       (Some \<lparr>storeState = 2, resetKey_deps = Num 1, memo_deps = (1, Undefined, 2),
              storeContext = 3, hydrate_deps = [''count'' \<mapsto> (2, Ref 0, Num 5)]\<rparr>)
       [Obj False [], MapObj Map.empty, StoreObj [Ref 0 \<mapsto> Num 7] {Ref 0},
        MapObj [''app:provider'' \<mapsto> 2]]
       = Some (Inr (f', h'))
     \<and> 4 \<le> storeState f'
     \<and> is_store h' (storeState f')
     \<and> entries_of h' (storeContext f') ''app:provider'' = Some (storeState f')
     \<and> store_cells h' (storeState f') (Ref 0) = Some (Num 6)"
proof -
  let ?atoms = "[(''count'', Ref 0)]"
  let ?props = "[''resetKey'' \<mapsto> Num 2, ''count'' \<mapsto> Num 6]"
  let ?f = "\<lparr>storeState = 2, resetKey_deps = Num 1, memo_deps = (1, Undefined, 2),
              storeContext = 3, hydrate_deps = [''count'' \<mapsto> (2, Ref 0, Num 5)]\<rparr>"
  let ?h = "[Obj False [], MapObj Map.empty, StoreObj [Ref 0 \<mapsto> Num 7] {Ref 0},
        MapObj [''app:provider'' \<mapsto> 2]]"
  let ?hv = "spread ?h (field ?props ''initialValues'')
               ++ ?props |` (- {''store'', ''scope'', ''children'', ''resetKey'',
                                ''initialValues'', ''atoms''})"
  have a: "resetKey_deps ?f \<noteq> field ?props ''resetKey''" "truthy (field ?props ''resetKey'')"
    "?props ''atoms'' = None" "is_store ?h (storeState ?f)"
    "distinct (map fst ?atoms)" "distinct (map snd ?atoms)"
    by (simp_all add: field_def is_store_def heap_at_def)
  from provider_reset [OF a, of "''app''" 1]
  obtain f' h' where run: "provider_update 2 ''app'' ?atoms ?props 1 (Some ?f) ?h = Some (Inr (f', h'))"
    and fresh: "length ?h \<le> storeState f'"
    and st: "is_store h' (storeState f')"
    and reg: "entries_of h' (storeContext f') (getFullyQualifiedScope ''app'' PROVIDER_SCOPE)
           = Some (storeState f')"
    and cells: "\<forall>key atom. (key, atom) \<in> set ?atoms \<and> object_prototype key = None \<longrightarrow>
             store_cells h' (storeState f') atom =
               (case ?hv key of
                  Some v \<Rightarrow> (if v = Undefined then None else Some v)
                | None \<Rightarrow> None)"
    by (elim exE conjE)
  have v: "?hv ''count'' = Some (Num 6)"
    by (simp add: map_add_def restrict_map_def)
  have "(''count'', Ref 0) \<in> set ?atoms \<and> object_prototype ''count'' = None"
    by (simp add: object_prototype_def)
  with cells have "store_cells h' (storeState f') (Ref 0) =
               (case ?hv ''count'' of
                  Some v \<Rightarrow> (if v = Undefined then None else Some v)
                | None \<Rightarrow> None)"
    by blast
  then have c: "store_cells h' (storeState f') (Ref 0) = Some (Num 6)"
    unfolding v by simp
  from fresh have fr: "4 \<le> storeState f'"
    by simp
  from reg have rg: "entries_of h' (storeContext f') ''app:provider'' = Some (storeState f')"
    by (simp add: gfqs_provider)
  from run fr st rg c show ?thesis
    by (intro exI [of _ f'] exI [of _ h'] conjI)
qed

section \<open>Nested Providers and the registry keys\<close>

text \<open>
  The registry key is the string \<open>storeName:scope\<close>, and a name or a scope may itself
  contain a colon: the store \<open>a:b\<close> under scope \<open>c\<close> and the store \<open>a\<close> under scope
  \<open>b:c\<close> share one key.
\<close>

theorem qualified_key_not_injective:
  "getFullyQualifiedScope ''a:b'' (Str ''c'') = getFullyQualifiedScope ''a'' (Str ''b:c'')
   \<and> (''a:b'', ''c'') \<noteq> (''a'', ''b:c'')"
  by (simp add: gfqs_str)

text \<open>
  Below a Provider of a store, the store's name alone resolves to that Provider's store,
  and so does its scope when it registered one; a lookup whose two keys the Provider did
  not set resolves as it does above the Provider.
\<close>

theorem nested_provider_resolution:
  assumes "provider_context name prev scope store (objs w) = (new, h')"
  shows "fst (useAtomStore new name Undefined warn (w\<lparr>objs := h'\<rparr>)) = Ref store
       \<and> (truthy scope \<longrightarrow> fst (useAtomStore new name scope warn (w\<lparr>objs := h'\<rparr>)) = Ref store)
       \<and> (\<forall>name' scope'.
             getFullyQualifiedScope name' (Str scope') \<noteq> getFullyQualifiedScope name scope
           \<and> getFullyQualifiedScope name' (Str scope') \<noteq> getFullyQualifiedScope name PROVIDER_SCOPE
           \<and> getFullyQualifiedScope name' PROVIDER_SCOPE \<noteq> getFullyQualifiedScope name scope
           \<and> getFullyQualifiedScope name' PROVIDER_SCOPE \<noteq> getFullyQualifiedScope name PROVIDER_SCOPE
           \<longrightarrow> fst (useAtomStore new name' (Str scope') warn (w\<lparr>objs := h'\<rparr>))
               = fst (useAtomStore prev name' (Str scope') warn w))"
proof -
  note ext = provider_context_entries [OF assms]
  have e: "entries_of h' new =
           (if truthy scope
            then (entries_of (objs w) prev)(getFullyQualifiedScope name scope \<mapsto> store,
                                     getFullyQualifiedScope name PROVIDER_SCOPE \<mapsto> store)
            else (entries_of (objs w) prev)(getFullyQualifiedScope name PROVIDER_SCOPE \<mapsto> store))"
    using ext by simp
  have a: "fst (useAtomStore new name Undefined warn (w\<lparr>objs := h'\<rparr>)) = Ref store"
    by (simp add: useAtomStore_def Let_def map_get_def nullish_or_def e)
  have b: "truthy scope \<longrightarrow> fst (useAtomStore new name scope warn (w\<lparr>objs := h'\<rparr>)) = Ref store"
    by (auto simp: useAtomStore_def Let_def map_get_def nullish_or_def e)
  have c: "\<forall>name' scope'.
             getFullyQualifiedScope name' (Str scope') \<noteq> getFullyQualifiedScope name scope
           \<and> getFullyQualifiedScope name' (Str scope') \<noteq> getFullyQualifiedScope name PROVIDER_SCOPE
           \<and> getFullyQualifiedScope name' PROVIDER_SCOPE \<noteq> getFullyQualifiedScope name scope
           \<and> getFullyQualifiedScope name' PROVIDER_SCOPE \<noteq> getFullyQualifiedScope name PROVIDER_SCOPE
           \<longrightarrow> fst (useAtomStore new name' (Str scope') warn (w\<lparr>objs := h'\<rparr>))
               = fst (useAtomStore prev name' (Str scope') warn w)"
    by (simp add: useAtomStore_def Let_def map_get_def nullish_or_def e)
  from a b c show ?thesis by blast
qed


text \<open>
  A Provider of \<open>app\<close> with scope \<open>dark\<close> and store 3, below a snapshot that holds
  \<open>app:provider\<close> and \<open>other:provider\<close>: \<open>app\<close> resolves to store 3 by name and by
  scope, \<open>other\<close> still resolves to store 2.
\<close>

theorem nested_provider_resolution_witness:
  "fst (useAtomStore
         (fst (provider_context ''app'' 0 (Str ''dark'') 3
                [MapObj [''app:provider'' \<mapsto> 1, ''other:provider'' \<mapsto> 2],
                 StoreObj Map.empty {}, StoreObj Map.empty {}, StoreObj Map.empty {}]))
         ''app'' Undefined Undefined
         \<lparr>objs = snd (provider_context ''app'' 0 (Str ''dark'') 3
                [MapObj [''app:provider'' \<mapsto> 1, ''other:provider'' \<mapsto> 2],
                 StoreObj Map.empty {}, StoreObj Map.empty {}, StoreObj Map.empty {}]),
          console = []\<rparr>) = Ref 3
   \<and> fst (useAtomStore
         (fst (provider_context ''app'' 0 (Str ''dark'') 3
                [MapObj [''app:provider'' \<mapsto> 1, ''other:provider'' \<mapsto> 2],
                 StoreObj Map.empty {}, StoreObj Map.empty {}, StoreObj Map.empty {}]))
         ''app'' (Str ''dark'') Undefined
         \<lparr>objs = snd (provider_context ''app'' 0 (Str ''dark'') 3
                [MapObj [''app:provider'' \<mapsto> 1, ''other:provider'' \<mapsto> 2],
                 StoreObj Map.empty {}, StoreObj Map.empty {}, StoreObj Map.empty {}]),
          console = []\<rparr>) = Ref 3
   \<and> fst (useAtomStore
         (fst (provider_context ''app'' 0 (Str ''dark'') 3
                [MapObj [''app:provider'' \<mapsto> 1, ''other:provider'' \<mapsto> 2],
                 StoreObj Map.empty {}, StoreObj Map.empty {}, StoreObj Map.empty {}]))
         ''other'' (Str ''x'') Undefined
         \<lparr>objs = snd (provider_context ''app'' 0 (Str ''dark'') 3
                [MapObj [''app:provider'' \<mapsto> 1, ''other:provider'' \<mapsto> 2],
                 StoreObj Map.empty {}, StoreObj Map.empty {}, StoreObj Map.empty {}]),
          console = []\<rparr>) = Ref 2"
proof -
  let ?h = "[MapObj [''app:provider'' \<mapsto> 1, ''other:provider'' \<mapsto> 2],
                 StoreObj Map.empty {}, StoreObj Map.empty {}, StoreObj Map.empty {}]"
  let ?w = "\<lparr>objs = ?h, console = []\<rparr>"
  let ?r = "provider_context ''app'' 0 (Str ''dark'') 3 ?h"
  have "provider_context ''app'' 0 (Str ''dark'') 3 (objs ?w) = (fst ?r, snd ?r)"
    by simp
  note t = nested_provider_resolution [OF this, of Undefined]
  have w': "?w\<lparr>objs := snd ?r\<rparr> = \<lparr>objs = snd ?r, console = []\<rparr>"
    by simp
  from t have a: "fst (useAtomStore (fst ?r) ''app'' Undefined Undefined \<lparr>objs = snd ?r, console = []\<rparr>)
      = Ref 3"
    unfolding w' by blast
  from t have b: "fst (useAtomStore (fst ?r) ''app'' (Str ''dark'') Undefined
      \<lparr>objs = snd ?r, console = []\<rparr>) = Ref 3"
    unfolding w' by simp
  have ne: "getFullyQualifiedScope ''other'' (Str ''x'') \<noteq> getFullyQualifiedScope ''app'' (Str ''dark'')
           \<and> getFullyQualifiedScope ''other'' (Str ''x'') \<noteq> getFullyQualifiedScope ''app'' PROVIDER_SCOPE
           \<and> getFullyQualifiedScope ''other'' PROVIDER_SCOPE \<noteq> getFullyQualifiedScope ''app'' (Str ''dark'')
           \<and> getFullyQualifiedScope ''other'' PROVIDER_SCOPE \<noteq> getFullyQualifiedScope ''app'' PROVIDER_SCOPE"
    by (simp add: gfqs_str gfqs_provider)
  from t [THEN conjunct2, THEN conjunct2, rule_format, OF ne]
  have "fst (useAtomStore (fst ?r) ''other'' (Str ''x'') Undefined \<lparr>objs = snd ?r, console = []\<rparr>)
      = fst (useAtomStore 0 ''other'' (Str ''x'') Undefined ?w)"
    unfolding w' .
  also have "\<dots> = Ref 2"
    by (simp add: useAtomStore_def Let_def map_get_def nullish_or_def entries_of_def heap_at_def
        gfqs_str gfqs_provider)
  finally have c: "fst (useAtomStore (fst ?r) ''other'' (Str ''x'') Undefined
      \<lparr>objs = snd ?r, console = []\<rparr>) = Ref 2" .
  from a b c show ?thesis by (intro conjI)
qed

end
